theory Spec2Isabelle
  imports Main "HOL-Library.Word"
begin

unbundle bit_operations_syntax

section \<open>The type system the engine consumes (go/types)\<close>

text \<open>
  The engine of \<^verbatim>\<open>internal/rta/rta.go\<close> reads Go types, method sets and SSA functions
  that other libraries build. They are modelled as plain data:
  \<^item> a \<^verbatim>\<open>types.Type\<close> is a value of \<open>ty\<close>; a named type refers to its declaration by
    name, so recursive declarations are finite terms; its underlying type and its declared
    methods are looked up in the program;
  \<^item> a \<^verbatim>\<open>*types.Func\<close> (a method object) is a \<open>tfunc\<close>: the identity of the declared
    object, its name, the path of its package (\<open>None\<close> for a nil package, as for the
    methods of the universe type \<^verbatim>\<open>error\<close>) and the parameter and result lists of its
    signature; interface types list their methods in go/types' canonical order;
  \<^item> a \<^verbatim>\<open>*types.Package\<close> is its path;
  \<^item> an interface type carries the address of its \<^verbatim>\<open>*types.Interface\<close> object beside its
    method list: the engine keys one of its maps by that pointer, and two interface types
    with the same methods need not be the same object. The underlying type of a named type
    is one object, so it has one address. A type parameter carries the address and the
    methods of its constraint.
\<close>

datatype ty =
    Basic string
  | Pointer ty
  | Slice ty
  | Array nat ty
  | MapT ty ty
  | Chan ty
  | Struct "var list"
  | Tuple "ty list"
  | Signature "ty list" "ty list"
  | Named string
  | Interface nat "tfunc list"
  | TypeParam string nat "tfunc list"
  | Alias string ty
  | Union "ty list"
and var = Var (var_Name: string) (var_Type: ty)
and tfunc = TFunc (m_id: string) (m_Name: string) (m_Pkg: "string option")
                  (m_Params: "ty list") (m_Results: "ty list")

text \<open>\<^verbatim>\<open>types.Unalias\<close>: follow alias declarations to the first type that is not an alias.\<close>

fun Unalias :: "ty \<Rightarrow> ty" where
  "Unalias (Alias n t) = Unalias t"
| "Unalias t = t"

text \<open>
  \<^verbatim>\<open>utf8.DecodeRuneInString\<close>, the rune it returns: the first code point of a string
  of bytes, and \<^verbatim>\<open>RuneError\<close> for the empty string and for a first sequence that is
  not well-formed UTF-8 (a stray continuation byte, a truncated or overlong sequence, a
  surrogate, a value above \<^verbatim>\<open>U+10FFFF\<close>).
\<close>

definition RuneError :: nat where
  "RuneError = 0xFFFD"

definition DecodeRune :: "string \<Rightarrow> nat" where
  "DecodeRune s =
     (case map of_char s of
        [] \<Rightarrow> RuneError
      | s0 # rest \<Rightarrow>
          if s0 < 0x80 then s0
          else if s0 < 0xC2 \<or> 0xF4 < s0 then RuneError
          else
            let sz = (if s0 < 0xE0 then 2 else if s0 < 0xF0 then 3 else (4::nat));
                lo = (if s0 = 0xE0 then 0xA0 else if s0 = 0xF0 then 0x90 else (0x80::nat));
                hi = (if s0 = 0xED then 0x9F else if s0 = 0xF4 then 0x8F else (0xBF::nat))
            in if length s < sz then RuneError
               else
                 let s1 = rest ! 0
                 in if s1 < lo \<or> hi < s1 then RuneError
                    else if sz \<le> 2 then (s0 mod 32) * 64 + s1 mod 64
                    else
                      let s2 = rest ! 1
                      in if s2 < 0x80 \<or> 0xBF < s2 then RuneError
                         else if sz \<le> 3
                              then (s0 mod 16) * 4096 + (s1 mod 64) * 64 + s2 mod 64
                              else
                                let s3 = rest ! 2
                                in if s3 < 0x80 \<or> 0xBF < s3 then RuneError
                                   else (s0 mod 8) * 262144 + (s1 mod 64) * 4096
                                        + (s2 mod 64) * 64 + s3 mod 64)"

text \<open>
  \<^verbatim>\<open>unicode.IsUpper\<close>: the code points of the general category \<^verbatim>\<open>Lu\<close>, as ranges
  \<open>(lo, hi, stride)\<close> in the manner of \<^verbatim>\<open>unicode.RangeTable\<close>. The table has the 1831
  uppercase letters of Unicode 14.0 and 15.0.
\<close>

definition UpperTable :: "(nat \<times> nat \<times> nat) list" where
  "UpperTable = [
    (65, 90, 1), (192, 214, 1), (216, 222, 1), (256, 310, 2), (313, 327, 2), (330, 376, 2),
    (377, 381, 2), (385, 386, 1), (388, 388, 1), (390, 391, 1), (393, 395, 1),
    (398, 401, 1), (403, 404, 1), (406, 408, 1), (412, 413, 1), (415, 416, 1),
    (418, 422, 2), (423, 423, 1), (425, 425, 1), (428, 428, 1), (430, 431, 1),
    (433, 435, 1), (437, 437, 1), (439, 440, 1), (444, 444, 1), (452, 452, 1),
    (455, 455, 1), (458, 458, 1), (461, 475, 2), (478, 494, 2), (497, 497, 1),
    (500, 500, 1), (502, 504, 1), (506, 562, 2), (570, 571, 1), (573, 574, 1),
    (577, 577, 1), (579, 582, 1), (584, 590, 2), (880, 880, 1), (882, 882, 1),
    (886, 886, 1), (895, 895, 1), (902, 902, 1), (904, 906, 1), (908, 908, 1),
    (910, 911, 1), (913, 929, 1), (931, 939, 1), (975, 975, 1), (978, 980, 1),
    (984, 1006, 2), (1012, 1012, 1), (1015, 1015, 1), (1017, 1018, 1), (1021, 1071, 1),
    (1120, 1152, 2), (1162, 1216, 2), (1217, 1229, 2), (1232, 1326, 2), (1329, 1366, 1),
    (4256, 4293, 1), (4295, 4295, 1), (4301, 4301, 1), (5024, 5109, 1), (7312, 7354, 1),
    (7357, 7359, 1), (7680, 7828, 2), (7838, 7934, 2), (7944, 7951, 1), (7960, 7965, 1),
    (7976, 7983, 1), (7992, 7999, 1), (8008, 8013, 1), (8025, 8031, 2), (8040, 8047, 1),
    (8120, 8123, 1), (8136, 8139, 1), (8152, 8155, 1), (8168, 8172, 1), (8184, 8187, 1),
    (8450, 8450, 1), (8455, 8455, 1), (8459, 8461, 1), (8464, 8466, 1), (8469, 8469, 1),
    (8473, 8477, 1), (8484, 8490, 2), (8491, 8493, 1), (8496, 8499, 1), (8510, 8511, 1),
    (8517, 8517, 1), (8579, 8579, 1), (11264, 11311, 1), (11360, 11360, 1),
    (11362, 11364, 1), (11367, 11373, 2), (11374, 11376, 1), (11378, 11378, 1),
    (11381, 11381, 1), (11390, 11392, 1), (11394, 11490, 2), (11499, 11499, 1),
    (11501, 11501, 1), (11506, 11506, 1), (42560, 42604, 2), (42624, 42650, 2),
    (42786, 42798, 2), (42802, 42862, 2), (42873, 42877, 2), (42878, 42886, 2),
    (42891, 42891, 1), (42893, 42893, 1), (42896, 42896, 1), (42898, 42898, 1),
    (42902, 42922, 2), (42923, 42926, 1), (42928, 42932, 1), (42934, 42948, 2),
    (42949, 42951, 1), (42953, 42953, 1), (42960, 42960, 1), (42966, 42966, 1),
    (42968, 42968, 1), (42997, 42997, 1), (65313, 65338, 1), (66560, 66599, 1),
    (66736, 66771, 1), (66928, 66938, 1), (66940, 66954, 1), (66956, 66962, 1),
    (66964, 66965, 1), (68736, 68786, 1), (71840, 71871, 1), (93760, 93791, 1),
    (119808, 119833, 1), (119860, 119885, 1), (119912, 119937, 1), (119964, 119964, 1),
    (119966, 119967, 1), (119970, 119970, 1), (119973, 119974, 1), (119977, 119980, 1),
    (119982, 119989, 1), (120016, 120041, 1), (120068, 120069, 1), (120071, 120074, 1),
    (120077, 120084, 1), (120086, 120092, 1), (120120, 120121, 1), (120123, 120126, 1),
    (120128, 120132, 1), (120134, 120134, 1), (120138, 120144, 1), (120172, 120197, 1),
    (120224, 120249, 1), (120276, 120301, 1), (120328, 120353, 1), (120380, 120405, 1),
    (120432, 120457, 1), (120488, 120512, 1), (120546, 120570, 1), (120604, 120628, 1),
    (120662, 120686, 1), (120720, 120744, 1), (120778, 120778, 1), (125184, 125217, 1)]"

definition IsUpper :: "nat \<Rightarrow> bool" where
  "IsUpper r = list_ex (\<lambda>(lo, hi, stride). lo \<le> r \<and> r \<le> hi \<and> (r - lo) mod stride = 0)
                       UpperTable"

text \<open>\<^verbatim>\<open>token.IsExported\<close> and \<^verbatim>\<open>(*types.Func).Exported\<close>: the first rune of the name is
  an uppercase letter.\<close>

definition Exported :: "string \<Rightarrow> bool" where
  "Exported name = IsUpper (DecodeRune name)"

text \<open>\<^verbatim>\<open>types.Id\<close>: an exported name is its own id, any other name is qualified by the
  package path (\<^verbatim>\<open>_\<close> when there is no package or its path is empty).\<close>

definition Id :: "string option \<Rightarrow> string \<Rightarrow> string" where
  "Id pkg name = (if Exported name then name
     else (case pkg of None \<Rightarrow> ''_'' | Some p \<Rightarrow> (if p = [] then ''_'' else p)) @ ''.'' @ name)"

text \<open>
  \<^verbatim>\<open>types.Identical\<close> compares two types after resolving aliases at every level. Two
  interface types are identical when their methods, in go/types' canonical order, have the
  same ids and identical signatures: neither the address of the interface, nor the object
  that declares a method, nor the package of an exported method counts. \<open>norm\<close> computes
  that normal form; a method is reduced to its id and its normalised signature.
\<close>

fun norm :: "ty \<Rightarrow> ty" and norm_var :: "var \<Rightarrow> var" and norm_func :: "tfunc \<Rightarrow> tfunc" where
  "norm (Basic n) = Basic n"
| "norm (Pointer t) = Pointer (norm t)"
| "norm (Slice t) = Slice (norm t)"
| "norm (Array n t) = Array n (norm t)"
| "norm (MapT k v) = MapT (norm k) (norm v)"
| "norm (Chan t) = Chan (norm t)"
| "norm (Struct fs) = Struct (map norm_var fs)"
| "norm (Tuple ts) = Tuple (map norm ts)"
| "norm (Signature ps rs) = Signature (map norm ps) (map norm rs)"
| "norm (Named n) = Named n"
| "norm (Interface a ms) = Interface 0 (map norm_func ms)"
| "norm (TypeParam n a ms) = TypeParam n a ms"
| "norm (Alias n t) = norm t"
| "norm (Union ts) = Union (map norm ts)"
| "norm_var (Var n t) = Var n (norm t)"
| "norm_func (TFunc i n p ps rs) = TFunc [] (Id p n) None (map norm ps) (map norm rs)"

definition Identical :: "ty \<Rightarrow> ty \<Rightarrow> bool" where
  "Identical x y = (norm x = norm y)"

definition func_Id :: "tfunc \<Rightarrow> string" where
  "func_Id m = Id (m_Pkg m) (m_Name m)"

definition func_Type :: "tfunc \<Rightarrow> ty" where
  "func_Type m = Signature (m_Params m) (m_Results m)"

text \<open>A \<^verbatim>\<open>*types.Selection\<close> of a method set: the receiver type and the method object.
  go/types never builds a method selection without an object, so the test
  \<^verbatim>\<open>sel.Obj() != nil\<close> of the engine always succeeds.\<close>

record selection =
  sel_Recv :: ty
  sel_Obj :: tfunc

text \<open>\<^verbatim>\<open>(*types.MethodSet).Lookup(pkg, name)\<close>: the selection whose object has the id of
  \<open>(pkg, name)\<close>.\<close>

definition Lookup :: "selection list \<Rightarrow> string option \<Rightarrow> string \<Rightarrow> selection option" where
  "Lookup mset pkg name = find (\<lambda>sel. func_Id (sel_Obj sel) = Id pkg name) mset"

section \<open>The SSA program the engine consumes (x/tools/go/ssa)\<close>

type_synonym fid = string

text \<open>An \<^verbatim>\<open>ssa.Value\<close> as far as the engine inspects it. The \<^verbatim>\<open>Fn\<close> of a
  \<^verbatim>\<open>MakeClosure\<close> is always a \<^verbatim>\<open>*Function\<close>; function pointers held by values are
  never nil.\<close>

datatype Value =
    FunctionV fid
  | MakeClosureV fid
  | MakeInterfaceV Value
  | BuiltinV
  | OtherV

text \<open>\<^verbatim>\<open>ssa.CallCommon\<close> together with the instruction that holds it
  (\<^verbatim>\<open>ssa.CallInstruction\<close>): \<open>call_Value_Type\<close> is \<^verbatim>\<open>Value.Type()\<close>,
  \<open>call_Parent\<close> is \<^verbatim>\<open>site.Parent()\<close>.\<close>

record callCommon =
  call_Value :: "Value option"
  call_Value_Type :: ty
  call_Method :: "tfunc option"
  call_Args :: "Value list"
  call_Parent :: fid

text \<open>The instructions the scan distinguishes. \<open>MakeInterface X (X.Type()) (Type())\<close>,
  \<open>TypeAssert X (X.Type()) AssertedType\<close>, \<open>ChangeInterface X (Type())\<close>; every other
  instruction is its operand list.\<close>

datatype instr =
    Call callCommon
  | MakeInterface Value ty ty
  | TypeAssert Value ty ty
  | ChangeInterface Value ty
  | OtherInstr "Value option list"

record object =
  obj_Pkg :: "string option"
  obj_Name :: string

text \<open>\<^verbatim>\<open>*ssa.Function\<close>: \<open>f_Pkg\<close> is \<^verbatim>\<open>f.Pkg\<close> (nil-able) and inside it
  \<^verbatim>\<open>f.Pkg.Pkg\<close> (nil-able), as its path.\<close>

record Function =
  f_String :: string
  f_Object :: "object option"
  f_Origin :: "fid option"
  f_Pkg :: "string option option"
  f_Signature :: ty
  f_Blocks :: "instr list list"

datatype member = MemberType ty | MemberOther

record package =
  pkg_Pkg :: "string option"
  pkg_Members :: "(string \<times> member) list"

text \<open>\<^verbatim>\<open>*ssa.Program\<close>: \<open>prog_Function\<close> dereferences a function pointer,
  \<open>prog_MethodSets\<close> is the shared method-set cache for types that are not interface
  literals, \<open>prog_MethodValue\<close> is \<^verbatim>\<open>prog.MethodValue\<close>.\<close>

record program =
  prog_Function :: "fid \<Rightarrow> Function"
  prog_Underlying :: "string \<Rightarrow> ty"
  prog_Methods :: "string \<Rightarrow> tfunc list"
  prog_MethodSets :: "ty \<Rightarrow> selection list"
  prog_MethodValue :: "selection \<Rightarrow> fid option"
  prog_AllPackages :: "package option list"

text \<open>\<^verbatim>\<open>T.Underlying()\<close>; the underlying type of a type parameter is its constraint.\<close>

fun Underlying :: "program \<Rightarrow> ty \<Rightarrow> ty" where
  "Underlying P (Named n) = prog_Underlying P n"
| "Underlying P (Alias n t) = Underlying P t"
| "Underlying P (TypeParam n a ms) = Interface a ms"
| "Underlying P t = t"

text \<open>
  The Go idiom \<^verbatim>\<open>iface, ok := U.(*types.Interface)\<close>. Where the engine goes on to use
  only the methods of \<^verbatim>\<open>iface\<close>, \<open>asInterface\<close> gives the method list. Where it stores
  the pointer or uses it as a map key, \<open>asInterfacePtr\<close> gives the address together with
  the methods, and \<open>iface_Type\<close> is the pointer read as a \<^verbatim>\<open>types.Type\<close> again.
\<close>

type_synonym iface = "nat \<times> tfunc list"

definition asInterface :: "ty \<Rightarrow> tfunc list option" where
  "asInterface U = (case U of Interface a ms \<Rightarrow> Some ms | _ \<Rightarrow> None)"

definition asInterfacePtr :: "ty \<Rightarrow> iface option" where
  "asInterfacePtr U = (case U of Interface a ms \<Rightarrow> Some (a, ms) | _ \<Rightarrow> None)"

definition iface_Type :: "iface \<Rightarrow> ty" where
  "iface_Type I = Interface (fst I) (snd I)"

definition isInterface :: "ty \<Rightarrow> bool" where
  "isInterface U = (asInterface U \<noteq> None)"

definition isPointer :: "ty \<Rightarrow> bool" where
  "isPointer T = (case T of Pointer _ \<Rightarrow> True | _ \<Rightarrow> False)"

text \<open>\<^verbatim>\<open>prog.MethodSets.MethodSet(T)\<close>. The method set of an interface literal is the
  method list of the interface; every other method set comes from the program's cache.\<close>

definition MethodSet :: "program \<Rightarrow> ty \<Rightarrow> selection list" where
  "MethodSet P T = (case Unalias T of
       Interface a ms \<Rightarrow> map (\<lambda>m. \<lparr>sel_Recv = Interface a ms, sel_Obj = m\<rparr>) ms
     | U \<Rightarrow> prog_MethodSets P U)"

text \<open>\<^verbatim>\<open>types.Implements(V, I)\<close>: every method of the interface has a method of the same
  id and an identical signature in the method set of \<open>V\<close>.\<close>

definition Implements :: "program \<Rightarrow> ty \<Rightarrow> tfunc list \<Rightarrow> bool" where
  "Implements P V I = list_all (\<lambda>m. list_ex (\<lambda>sel. func_Id (sel_Obj sel) = func_Id m
        \<and> Identical (func_Type (sel_Obj sel)) (func_Type m)) (MethodSet P V)) I"

section \<open>Errors\<close>

text \<open>A panic of the Go code is an \<open>Inl\<close> result. \<open>OutOfFuel\<close> is not a panic: it is
  the answer of the model when the bound on recursion given to it is too small.\<close>

datatype error = NilPointerDereference | TypeAssertionFailed | NoSuchMethod | OutOfFuel

definition bindE :: "error + 'a \<Rightarrow> ('a \<Rightarrow> error + 'b) \<Rightarrow> error + 'b" where
  "bindE m f = (case m of Inl e \<Rightarrow> Inl e | Inr x \<Rightarrow> f x)"

fun foldE :: "('a \<Rightarrow> 's \<Rightarrow> error + 's) \<Rightarrow> 'a list \<Rightarrow> 's \<Rightarrow> error + 's" where
  "foldE f [] s = Inr s"
| "foldE f (x # xs) s = bindE (f x s) (foldE f xs)"

text \<open>\<^verbatim>\<open>(*ssa.Program).LookupMethod\<close> panics when the method set has no such method.\<close>

definition LookupMethod :: "program \<Rightarrow> ty \<Rightarrow> string option \<Rightarrow> string \<Rightarrow> error + fid option" where
  "LookupMethod P T pkg name = (case Lookup (MethodSet P T) pkg name of
       None \<Rightarrow> Inl NoSuchMethod
     | Some sel \<Rightarrow> Inr (prog_MethodValue P sel))"

section \<open>Type Fingerprinter\<close>

text \<open>\<^verbatim>\<open>crc32.ChecksumIEEE\<close>, bit by bit: reflected polynomial \<^verbatim>\<open>0xEDB88320\<close>, initial
  value and final complement \<^verbatim>\<open>0xFFFFFFFF\<close>.\<close>

definition crc_step :: "32 word \<Rightarrow> 32 word" where
  "crc_step c = (if bit c 0 then drop_bit 1 c XOR 0xEDB88320 else drop_bit 1 c)"

definition crc_byte :: "32 word \<Rightarrow> 8 word \<Rightarrow> 32 word" where
  "crc_byte c b = (crc_step ^^ 8) (c XOR ucast b)"

definition ChecksumIEEE :: "8 word list \<Rightarrow> 32 word" where
  "ChecksumIEEE bs = fold (\<lambda>b c. crc_byte c b) bs 0xFFFFFFFF XOR 0xFFFFFFFF"

definition bytes_of :: "string \<Rightarrow> 8 word list" where
  "bytes_of s = map (\<lambda>c. of_nat (of_char c)) s"

text \<open>The verb \<^verbatim>\<open>%d\<close> on a length.\<close>

fun decimal :: "nat \<Rightarrow> string" where
  "decimal n = (if n < 10 then [char_of (48 + n)]
     else decimal (n div 10) @ [char_of (48 + n mod 10)])"

text \<open>
  \<^verbatim>\<open>fmt.Appendf(space[:], "%s/%d/%d", method.Id(), sig.Params().Len(), sig.Results().Len())\<close>
  appends the text to the whole 64-byte array \<^verbatim>\<open>space\<close>, so the bytes hashed are 64
  zero bytes followed by the text.
\<close>

definition method_key :: "tfunc \<Rightarrow> 8 word list" where
  "method_key method = replicate 64 0 @
     bytes_of (func_Id method @ ''/'' @ decimal (length (m_Params method))
               @ ''/'' @ decimal (length (m_Results method)))"

definition method_bit :: "tfunc \<Rightarrow> 64 word" where
  "method_bit method = push_bit (unat (ChecksumIEEE (method_key method) mod 64)) 1"

definition Fingerprint :: "selection list \<Rightarrow> 64 word" where
  "Fingerprint mset = fold (\<lambda>sel mask. mask OR method_bit (sel_Obj sel)) mset 0"

section \<open>typeutil.Map\<close>

text \<open>
  A \<^verbatim>\<open>typeutil.Map\<close> finds its keys with \<^verbatim>\<open>types.Identical\<close>. \<^verbatim>\<open>Set\<close> on a key
  identical to a stored one replaces the value and keeps the stored key. \<^verbatim>\<open>Iterate\<close>
  visits the entries in an order Go leaves open; the model visits them in the order of
  insertion.
\<close>

type_synonym 'v tmap = "(ty \<times> 'v) list"

fun tm_At :: "'v tmap \<Rightarrow> ty \<Rightarrow> 'v option" where
  "tm_At [] k = None"
| "tm_At ((k', v') # m) k = (if Identical k k' then Some v' else tm_At m k)"

fun tm_Set :: "'v tmap \<Rightarrow> ty \<Rightarrow> 'v \<Rightarrow> 'v tmap" where
  "tm_Set [] k v = [(k, v)]"
| "tm_Set ((k', v') # m) k v =
     (if Identical k k' then (k', v) # m else (k', v') # tm_Set m k v)"

section \<open>Result and working state\<close>

text \<open>\<open>Reachable f = Some b\<close> says that \<open>f\<close> is a key of the Go map and \<open>b\<close> is its
  \<^verbatim>\<open>AddrTaken\<close> flag.\<close>

record Result =
  Reachable :: "fid \<rightharpoonup> bool"
  ReachableObjects :: "tfunc \<rightharpoonup> bool"
  RuntimeTypes :: "bool tmap"

record concreteTypeInfo =
  ci_C :: ty
  ci_mset :: "selection list"
  ci_fprint :: "64 word"
  ci_implements :: "iface list"

record interfaceTypeInfo =
  ii_I :: iface
  ii_mset :: "selection list"
  ii_fprint :: "64 word"
  ii_implementations :: "ty list"
  ii_computed :: bool

text \<open>
  The working state. The Go maps that are used as sets of functions are lists without
  repetition. \<open>interfaceToTypes = None\<close> is the nil map; its keys are
  \<^verbatim>\<open>*types.Interface\<close> pointers, here the addresses. \<open>typeToInterfaces\<close> is made together
  with it, is only written when \<open>interfaceToTypes\<close> is not nil, and is never read. The
  \<^verbatim>\<open>operandSpace\<close> buffer carries no information.
\<close>

record rta =
  result :: Result
  reflectValueCall :: "fid option"
  currentFunction :: "fid option"
  worklist :: "fid list"
  addrTakenFuncsBySig :: "fid list tmap"
  dynCallSites :: "callCommon list tmap"
  invokeSites :: "callCommon list tmap"
  concreteTypes :: "concreteTypeInfo tmap"
  interfaceTypes :: "interfaceTypeInfo tmap"
  interfaceToTypes :: "(nat \<rightharpoonup> ty list) option"
  typeToInterfaces :: "ty \<rightharpoonup> iface list"
  userTypesIndexBuilt :: bool
  userTypes :: "ty list"

definition set_Reachable :: "(fid \<rightharpoonup> bool) \<Rightarrow> rta \<Rightarrow> rta" where
  "set_Reachable m r = r\<lparr>result := (result r)\<lparr>Reachable := m\<rparr>\<rparr>"

definition set_ReachableObjects :: "(tfunc \<rightharpoonup> bool) \<Rightarrow> rta \<Rightarrow> rta" where
  "set_ReachableObjects m r = r\<lparr>result := (result r)\<lparr>ReachableObjects := m\<rparr>\<rparr>"

definition set_RuntimeTypes :: "bool tmap \<Rightarrow> rta \<Rightarrow> rta" where
  "set_RuntimeTypes m r = r\<lparr>result := (result r)\<lparr>RuntimeTypes := m\<rparr>\<rparr>"

section \<open>The reflection-consumer allow-list\<close>

definition knownSafeFunctions :: "(string \<times> string list) list" where
  "knownSafeFunctions = [
    (''encoding/json.Marshal'', [''MarshalJSON'', ''MarshalText'']),
    (''encoding/json.MarshalIndent'', [''MarshalJSON'', ''MarshalText'']),
    (''encoding/json.Unmarshal'', [''UnmarshalJSON'', ''UnmarshalText'']),
    (''(*encoding/json.Encoder).Encode'', [''MarshalJSON'', ''MarshalText'']),
    (''(*encoding/json.Decoder).Decode'', [''UnmarshalJSON'', ''UnmarshalText'']),
    (''fmt.Printf'', [''String'', ''GoString'', ''Error'', ''Format'']),
    (''fmt.Sprintf'', [''String'', ''GoString'', ''Error'', ''Format'']),
    (''fmt.Fprintf'', [''String'', ''GoString'', ''Error'', ''Format'']),
    (''fmt.Print'', [''String'', ''GoString'', ''Error'']),
    (''fmt.Sprint'', [''String'', ''GoString'', ''Error'']),
    (''fmt.Fprint'', [''String'', ''GoString'', ''Error'']),
    (''fmt.Println'', [''String'', ''GoString'', ''Error'']),
    (''fmt.Sprintln'', [''String'', ''GoString'', ''Error'']),
    (''fmt.Fprintln'', [''String'', ''GoString'', ''Error'']),
    (''fmt.Errorf'', [''String'', ''GoString'', ''Error'', ''Format'']),
    (''encoding/xml.Marshal'', [''MarshalXML'', ''MarshalXMLAttr'']),
    (''encoding/xml.MarshalIndent'', [''MarshalXML'', ''MarshalXMLAttr'']),
    (''encoding/xml.Unmarshal'', [''UnmarshalXML'', ''UnmarshalXMLAttr'']),
    (''(*encoding/xml.Encoder).Encode'', [''MarshalXML'', ''MarshalXMLAttr'']),
    (''(*encoding/xml.Decoder).Decode'', [''UnmarshalXML'', ''UnmarshalXMLAttr'']),
    (''gopkg.in/yaml.v3.Marshal'', [''MarshalYAML'']),
    (''gopkg.in/yaml.v3.Unmarshal'', [''UnmarshalYAML'']),
    (''gopkg.in/yaml.v2.Marshal'', [''MarshalYAML'']),
    (''gopkg.in/yaml.v2.Unmarshal'', [''UnmarshalYAML'']),
    (''(*encoding/gob.Encoder).Encode'', [''GobEncode'']),
    (''(*encoding/gob.Decoder).Decode'', [''GobDecode'']),
    (''encoding/binary.Write'', [''MarshalBinary'']),
    (''encoding/binary.Read'', [''UnmarshalBinary'']),
    (''(*database/sql.DB).Query'', [''Scan'', ''Value'']),
    (''(*database/sql.DB).QueryRow'', [''Scan'', ''Value'']),
    (''(*database/sql.DB).Exec'', [''Value'']),
    (''(*database/sql.Stmt).Query'', [''Scan'', ''Value'']),
    (''(*database/sql.Stmt).QueryRow'', [''Scan'', ''Value'']),
    (''(*database/sql.Stmt).Exec'', [''Value''])]"

section \<open>Reachability marking\<close>

text \<open>\<^verbatim>\<open>markGenericTemplateReachable\<close>: the origin of an instantiation enters
  \<open>Reachable\<close> with \<open>AddrTaken = False\<close> when it is not there; the worklist is not
  touched.\<close>

definition markGenericTemplateReachable :: "program \<Rightarrow> fid \<Rightarrow> rta \<Rightarrow> rta" where
  "markGenericTemplateReachable P f r =
     (case f_Origin (prog_Function P f) of
        None \<Rightarrow> r
      | Some template \<Rightarrow>
          if template = f then r
          else if Reachable (result r) template = None
               then set_Reachable ((Reachable (result r))(template \<mapsto> False)) r
               else r)"

text \<open>
  \<^verbatim>\<open>addReachable\<close>. The Go code stores \<^verbatim>\<open>reachable[f] = v\<close> and compares
  \<^verbatim>\<open>len(reachable)\<close> before and after: the length grows exactly when \<open>f\<close> was not a key.
  A missing key reads as the zero value, \<open>AddrTaken = False\<close>.
\<close>

definition addReachable :: "program \<Rightarrow> fid option \<Rightarrow> bool \<Rightarrow> rta \<Rightarrow> rta" where
  "addReachable P fo addrTaken r =
     (case fo of
        None \<Rightarrow> r
      | Some f \<Rightarrow>
          let reachable = Reachable (result r);
              grows = (reachable f = None);
              v = (case reachable f of None \<Rightarrow> False | Some b \<Rightarrow> b);
              v' = (if addrTaken then True else v);
              r1 = set_Reachable (reachable(f \<mapsto> v')) r
          in if grows
             then markGenericTemplateReachable P f (r1\<lparr>worklist := worklist r1 @ [f]\<rparr>)
             else r1)"

definition addReachableObject :: "tfunc option \<Rightarrow> rta \<Rightarrow> rta" where
  "addReachableObject obj r =
     (case obj of
        None \<Rightarrow> r
      | Some ob \<Rightarrow> set_ReachableObjects ((ReachableObjects (result r))(ob \<mapsto> True)) r)"

text \<open>\<^verbatim>\<open>addEdge\<close> ignores the caller and the site.\<close>

definition addEdge ::
  "program \<Rightarrow> fid option \<Rightarrow> callCommon option \<Rightarrow> fid option \<Rightarrow> bool \<Rightarrow> rta \<Rightarrow> rta" where
  "addEdge P caller site callee addrTaken r = addReachable P callee addrTaken r"

text \<open>
  The block that the engine repeats wherever it force-marks a selected method:
  \<^verbatim>\<open>if fn := r.prog.MethodValue(sel); fn != nil { r.addReachable(fn, true) }
  else if sel.Obj() != nil { r.addReachableObject(sel.Obj()) }\<close>.
\<close>

definition markSelection :: "program \<Rightarrow> selection \<Rightarrow> rta \<Rightarrow> rta" where
  "markSelection P sel r =
     (case prog_MethodValue P sel of
        Some fn \<Rightarrow> addReachable P (Some fn) True r
      | None \<Rightarrow> addReachableObject (Some (sel_Obj sel)) r)"

section \<open>Address-taken functions and dynamic calls\<close>

text \<open>The Go idiom \<^verbatim>\<open>xs, _ := m.At(k).([]T)\<close>: a missing key reads as the nil slice.\<close>

definition at_list :: "'a list tmap \<Rightarrow> ty \<Rightarrow> 'a list" where
  "at_list m k = (case tm_At m k of None \<Rightarrow> [] | Some xs \<Rightarrow> xs)"

definition visitAddrTakenFunc :: "program \<Rightarrow> fid \<Rightarrow> rta \<Rightarrow> rta" where
  "visitAddrTakenFunc P f r =
     (let S = f_Signature (prog_Function P f);
          funcs = at_list (addrTakenFuncsBySig r) S;
          r1 = (if tm_At (addrTakenFuncsBySig r) S = None
                then r\<lparr>addrTakenFuncsBySig := tm_Set (addrTakenFuncsBySig r) S []\<rparr>
                else r)
      in if f \<in> set funcs then r1
         else
           let r2 = r1\<lparr>addrTakenFuncsBySig := tm_Set (addrTakenFuncsBySig r1) S (funcs @ [f])\<rparr>;
               sites = at_list (dynCallSites r2) S;
               r3 = fold (\<lambda>site. addEdge P (Some (call_Parent site)) (Some site) (Some f) True)
                         sites r2
           in if reflectValueCall r3 \<noteq> None
              then addEdge P (reflectValueCall r3) None (Some f) True r3
              else r3)"

text \<open>\<^verbatim>\<open>(*ssa.CallCommon).Signature\<close>.\<close>

definition callSignature :: "program \<Rightarrow> callCommon \<Rightarrow> error + ty" where
  "callSignature P c =
     (case call_Method c of
        Some m \<Rightarrow> Inr (func_Type m)
      | None \<Rightarrow>
          (case call_Value c of
             None \<Rightarrow> Inl NilPointerDereference
           | Some _ \<Rightarrow>
               (case Underlying P (call_Value_Type c) of
                  Signature ps rs \<Rightarrow> Inr (Signature ps rs)
                | _ \<Rightarrow> Inl TypeAssertionFailed)))"

definition visitDynCall :: "program \<Rightarrow> callCommon \<Rightarrow> rta \<Rightarrow> error + rta" where
  "visitDynCall P site r =
     bindE (callSignature P site) (\<lambda>S.
       let sites = at_list (dynCallSites r) S;
           r1 = r\<lparr>dynCallSites := tm_Set (dynCallSites r) S (sites @ [site])\<rparr>;
           funcs = at_list (addrTakenFuncsBySig r1) S
       in Inr (fold (\<lambda>g. addEdge P (Some (call_Parent site)) (Some site) (Some g) True)
                    funcs r1))"

section \<open>Compliance oracle\<close>

definition implements :: "program \<Rightarrow> concreteTypeInfo \<Rightarrow> interfaceTypeInfo \<Rightarrow> bool" where
  "implements P cinfo iinfo =
     (ii_fprint iinfo AND NOT (ci_fprint cinfo) = 0
      \<and> Implements P (ci_C cinfo) (snd (ii_I iinfo)))"

text \<open>\<^verbatim>\<open>getConcreteTypeInfo\<close> returns a pointer into the map; the model returns the
  record and the state, and a later write through the pointer is a \<open>tm_Set\<close> at the
  key \<open>ci_C\<close>.\<close>

definition getConcreteTypeInfo :: "program \<Rightarrow> ty \<Rightarrow> rta \<Rightarrow> concreteTypeInfo \<times> rta" where
  "getConcreteTypeInfo P origC r =
     (let C = Unalias origC
      in case tm_At (concreteTypes r) C of
           Some cinfo \<Rightarrow> (cinfo, r)
         | None \<Rightarrow>
             let mset = MethodSet P C;
                 cinfo = \<lparr>ci_C = C, ci_mset = mset, ci_fprint = Fingerprint mset,
                          ci_implements = []\<rparr>;
                 r1 = r\<lparr>concreteTypes := tm_Set (concreteTypes r) C cinfo\<rparr>;
                 r2 = (if origC \<noteq> C
                       then r1\<lparr>concreteTypes := tm_Set (concreteTypes r1) origC cinfo\<rparr>
                       else r1)
             in (cinfo, r2))"

definition getInterfaceTypeInfo :: "program \<Rightarrow> iface \<Rightarrow> rta \<Rightarrow> interfaceTypeInfo \<times> rta" where
  "getInterfaceTypeInfo P I r =
     (case tm_At (interfaceTypes r) (iface_Type I) of
        Some iinfo \<Rightarrow> (iinfo, r)
      | None \<Rightarrow>
          let mset = MethodSet P (iface_Type I);
              iinfo = \<lparr>ii_I = I, ii_mset = mset, ii_fprint = Fingerprint mset,
                       ii_implementations = [], ii_computed = False\<rparr>
          in (iinfo, r\<lparr>interfaceTypes := tm_Set (interfaceTypes r) (iface_Type I) iinfo\<rparr>))"

text \<open>One round of the \<^verbatim>\<open>Iterate\<close> of \<^verbatim>\<open>interfaces\<close>: the key is asserted to be an
  interface before the test.\<close>

definition interfaces_visit ::
  "program \<Rightarrow> ty \<times> interfaceTypeInfo \<Rightarrow> concreteTypeInfo \<Rightarrow> error + concreteTypeInfo" where
  "interfaces_visit P e cinfo =
     (case asInterfacePtr (Unalias (fst e)) of
        None \<Rightarrow> Inl TypeAssertionFailed
      | Some iface \<Rightarrow>
          Inr (if implements P cinfo (snd e)
               then cinfo\<lparr>ci_implements := ci_implements cinfo @ [iface]\<rparr>
               else cinfo))"

definition interfaces :: "program \<Rightarrow> ty \<Rightarrow> rta \<Rightarrow> error + (iface list \<times> rta)" where
  "interfaces P C r =
     (let (cinfo, r1) = getConcreteTypeInfo P C r
      in if ci_implements cinfo = []
         then bindE (foldE (interfaces_visit P) (interfaceTypes r1) cinfo) (\<lambda>cinfo'.
                Inr (ci_implements cinfo',
                     r1\<lparr>concreteTypes := tm_Set (concreteTypes r1) (ci_C cinfo') cinfo'\<rparr>))
         else Inr (ci_implements cinfo, r1))"

text \<open>\<^verbatim>\<open>implementations\<close> reads and writes \<^verbatim>\<open>interfaceToTypes\<close> at the pointer it is
  given. The fallback \<^verbatim>\<open>Iterate\<close> appends the interface to every implementing \<open>cinfo\<close> in
  place and collects the concrete types.\<close>

definition implementations :: "program \<Rightarrow> iface \<Rightarrow> rta \<Rightarrow> ty list \<times> rta" where
  "implementations P I r =
     (let (iinfo, r1) = getInterfaceTypeInfo P I r
      in if \<not> ii_computed iinfo
         then
           (case (case interfaceToTypes r1 of None \<Rightarrow> None | Some idx \<Rightarrow> idx (fst I)) of
              Some cached \<Rightarrow>
                (cached, r1\<lparr>interfaceTypes := tm_Set (interfaceTypes r1) (iface_Type I)
                               (iinfo\<lparr>ii_implementations := cached, ii_computed := True\<rparr>)\<rparr>)
            | None \<Rightarrow>
                let found = map (\<lambda>e. ci_C (snd e))
                              (filter (\<lambda>e. implements P (snd e) iinfo) (concreteTypes r1));
                    cts = map (\<lambda>e. if implements P (snd e) iinfo
                                    then (fst e, (snd e)\<lparr>ci_implements := ci_implements (snd e) @ [I]\<rparr>)
                                    else e) (concreteTypes r1);
                    impls = ii_implementations iinfo @ found;
                    iinfo' = iinfo\<lparr>ii_implementations := impls, ii_computed := True\<rparr>;
                    r2 = r1\<lparr>concreteTypes := cts,
                            interfaceTypes := tm_Set (interfaceTypes r1) (iface_Type I) iinfo'\<rparr>;
                    r3 = (case interfaceToTypes r2 of
                            None \<Rightarrow> r2
                          | Some idx \<Rightarrow> r2\<lparr>interfaceToTypes := Some (idx(fst I \<mapsto> impls))\<rparr>)
                in (impls, r3))
         else (ii_implementations iinfo, r1))"

section \<open>Concrete types and invoke sites\<close>

definition addInvokeEdge :: "program \<Rightarrow> callCommon \<Rightarrow> ty \<Rightarrow> rta \<Rightarrow> error + rta" where
  "addInvokeEdge P site C0 r =
     (let C = Unalias C0
      in case call_Method site of
           None \<Rightarrow> Inl NilPointerDereference
         | Some imethod \<Rightarrow>
             let methodName = m_Name imethod;
                 sel = Lookup (MethodSet P C) (m_Pkg imethod) methodName;
                 ptrSel = Lookup (MethodSet P (Pointer C)) (m_Pkg imethod) methodName;
                 sel' = (if sel = None \<and> \<not> isPointer C then ptrSel else sel);
                 C' = (if sel = None \<and> \<not> isPointer C \<and> ptrSel \<noteq> None then Pointer C else C)
             in if sel' = None then Inr r
                else bindE (LookupMethod P C' (m_Pkg imethod) methodName) (\<lambda>cmethod.
                       Inr (addEdge P (Some (call_Parent site)) (Some site) cmethod True r)))"

definition visitInvoke :: "program \<Rightarrow> callCommon \<Rightarrow> rta \<Rightarrow> error + rta" where
  "visitInvoke P site r =
     (case call_Value site of
        None \<Rightarrow> Inl NilPointerDereference
      | Some _ \<Rightarrow>
          (case asInterfacePtr (Underlying P (call_Value_Type site)) of
             None \<Rightarrow> Inl TypeAssertionFailed
           | Some I \<Rightarrow>
               let sites = at_list (invokeSites r) (iface_Type I);
                   r1 = r\<lparr>invokeSites := tm_Set (invokeSites r) (iface_Type I) (sites @ [site])\<rparr>;
                   (Cs, r2) = implementations P I r1
               in foldE (addInvokeEdge P site) Cs r2))"

text \<open>
  The block that adds the edges of the invoke sites already recorded for a new concrete
  type: \<^verbatim>\<open>for _, I := range r.interfaces(T) { sites, _ := r.invokeSites.At(I)...;
  for _, site := range sites { r.addInvokeEdge(site, T) } }\<close>.
\<close>

definition addInvokeEdgesOfType :: "program \<Rightarrow> ty \<Rightarrow> rta \<Rightarrow> error + rta" where
  "addInvokeEdgesOfType P T r =
     bindE (interfaces P T r) (\<lambda>(Is, r1).
       foldE (\<lambda>I r'. foldE (\<lambda>site. addInvokeEdge P site T)
                             (at_list (invokeSites r') (iface_Type I)) r') Is r1)"

section \<open>Static callees, finalizers, the known-safe context\<close>

definition IsInvoke :: "callCommon \<Rightarrow> bool" where
  "IsInvoke c = (call_Method c \<noteq> None)"

text \<open>\<^verbatim>\<open>(*ssa.CallCommon).StaticCallee\<close>.\<close>

definition StaticCallee :: "callCommon \<Rightarrow> fid option" where
  "StaticCallee c =
     (case call_Value c of
        Some (FunctionV fn) \<Rightarrow> Some fn
      | Some (MakeClosureV fn) \<Rightarrow> Some fn
      | _ \<Rightarrow> None)"

definition checkSetFinalizer :: "program \<Rightarrow> callCommon \<Rightarrow> rta \<Rightarrow> rta" where
  "checkSetFinalizer P call r =
     (if IsInvoke call \<or> call_Value call = None then r
      else
        (case call_Value call of
           Some (FunctionV calledFn) \<Rightarrow>
             (case f_Object (prog_Function P calledFn) of
                None \<Rightarrow> r
              | Some ob \<Rightarrow>
                  if obj_Pkg ob = None \<or> obj_Pkg ob \<noteq> Some ''runtime''
                     \<or> obj_Name ob \<noteq> ''SetFinalizer'' \<or> length (call_Args call) < 2
                  then r
                  else
                    let arg = call_Args call ! 1;
                        finalizerArg = (case arg of MakeInterfaceV x \<Rightarrow> x | _ \<Rightarrow> arg)
                    in (case finalizerArg of
                          FunctionV fn \<Rightarrow> addReachable P (Some fn) True r
                        | MakeClosureV closureFn \<Rightarrow> addReachable P (Some closureFn) True r
                        | _ \<Rightarrow> r))
         | _ \<Rightarrow> r))"

text \<open>The static callees of the call instructions of a function, in the order of its
  blocks and instructions: what the loops of \<^verbatim>\<open>isInKnownSafeContext\<close> and
  \<^verbatim>\<open>shouldMarkMethodForReflection\<close> walk through.\<close>

definition staticCallees :: "program \<Rightarrow> fid \<Rightarrow> fid list" where
  "staticCallees P f =
     concat (map (\<lambda>instr. case instr of
                     Call c \<Rightarrow> (case StaticCallee c of Some fn \<Rightarrow> [fn] | None \<Rightarrow> [])
                   | _ \<Rightarrow> [])
                 (concat (f_Blocks (prog_Function P f))))"

definition isInKnownSafeContext :: "program \<Rightarrow> rta \<Rightarrow> bool" where
  "isInKnownSafeContext P r =
     (case currentFunction r of
        None \<Rightarrow> False
      | Some cur \<Rightarrow>
          list_ex (\<lambda>fn. map_of knownSafeFunctions (f_String (prog_Function P fn)) \<noteq> None)
                  (staticCallees P cur))"

definition commonReflectionMethods :: "string list" where
  "commonReflectionMethods = [''MarshalJSON'', ''UnmarshalJSON'', ''MarshalText'',
     ''UnmarshalText'', ''String'', ''GoString'', ''Error'', ''Format'']"

text \<open>\<^verbatim>\<open>shouldMarkMethodForReflection\<close> reads \<^verbatim>\<open>r.currentFunction.Blocks\<close> without a
  nil test.\<close>

definition shouldMarkMethodForReflection :: "program \<Rightarrow> rta \<Rightarrow> tfunc \<Rightarrow> error + bool" where
  "shouldMarkMethodForReflection P r method =
     (case currentFunction r of
        None \<Rightarrow> Inl NilPointerDereference
      | Some cur \<Rightarrow>
          Inr (list_ex (\<lambda>fn. case map_of knownSafeFunctions (f_String (prog_Function P fn)) of
                               None \<Rightarrow> False
                             | Some methods \<Rightarrow> m_Name method \<in> set methods)
                       (staticCallees P cur)
               \<or> m_Name method \<in> set commonReflectionMethods))"

section \<open>Marking the methods of an interface\<close>

definition markInterfaceMethodsReachable :: "program \<Rightarrow> ty \<Rightarrow> tfunc list \<Rightarrow> rta \<Rightarrow> rta" where
  "markInterfaceMethodsReachable P T iface r =
     (let valueMset = MethodSet P T;
          ptrMset = MethodSet P (Pointer T)
      in fold (\<lambda>method. fold (\<lambda>mset r'.
                   case Lookup mset (m_Pkg method) (m_Name method) of
                     None \<Rightarrow> r'
                   | Some sel \<Rightarrow> markSelection P sel r')
                 [valueMset, ptrMset])
              iface r)"

text \<open>The loop over the methods of an interface that looks each method up in one method
  set and force-marks what it finds (in \<^verbatim>\<open>addRuntimeTypeForInterface\<close> and in
  \<^verbatim>\<open>markImplementorsMethodsReachable\<close>).\<close>

definition markMethodsIn :: "program \<Rightarrow> selection list \<Rightarrow> tfunc list \<Rightarrow> rta \<Rightarrow> rta" where
  "markMethodsIn P mset iface r =
     fold (\<lambda>method r'. case Lookup mset (m_Pkg method) (m_Name method) of
                          None \<Rightarrow> r'
                        | Some sel \<Rightarrow> markSelection P sel r')
          iface r"

section \<open>Implementation index\<close>

fun hasModulePath :: "string \<Rightarrow> bool" where
  "hasModulePath [] = False"
| "hasModulePath (ch # path) =
     (if ch = CHR ''/'' then False
      else if ch = CHR ''.'' then True
      else hasModulePath path)"

definition isStdlibFunction :: "program \<Rightarrow> fid option \<Rightarrow> bool" where
  "isStdlibFunction P fo =
     (case fo of
        None \<Rightarrow> False
      | Some f \<Rightarrow>
          (case f_Pkg (prog_Function P f) of
             None \<Rightarrow> False
           | Some None \<Rightarrow> False
           | Some (Some path) \<Rightarrow> \<not> hasModulePath path))"

text \<open>The named types declared by the user packages, in the order of the packages and
  of their members, interfaces left out.\<close>

definition userPackageTypes :: "program \<Rightarrow> ty list" where
  "userPackageTypes P =
     concat (map (\<lambda>pkg. case pkg of
                    None \<Rightarrow> []
                  | Some p \<Rightarrow>
                      (case pkg_Pkg p of
                         None \<Rightarrow> []
                       | Some path \<Rightarrow>
                           if \<not> hasModulePath path then []
                           else concat (map (\<lambda>nm. case snd nm of
                                                MemberType T \<Rightarrow>
                                                  if isInterface (Underlying P T) then [] else [T]
                                              | MemberOther \<Rightarrow> [])
                                            (pkg_Members p))))
                 (prog_AllPackages P))"

text \<open>Appending a type to \<^verbatim>\<open>r.userTypes\<close> unless the local map \<^verbatim>\<open>seen\<close> has it.
  \<^verbatim>\<open>seen\<close> holds exactly the types appended so far.\<close>

definition addUserType :: "ty \<Rightarrow> ty list \<Rightarrow> ty list" where
  "addUserType T seen = (if T \<in> set seen then seen else seen @ [T])"

text \<open>One pair (user type, interface) of the pre-computation, and of the incremental
  update of \<^verbatim>\<open>addTypeToIndex\<close>.\<close>

definition indexAppend :: "ty \<Rightarrow> iface \<Rightarrow> rta \<Rightarrow> rta" where
  "indexAppend T iface r =
     r\<lparr>interfaceToTypes :=
          Some (case interfaceToTypes r of
                  None \<Rightarrow> [fst iface \<mapsto> [T]]
                | Some idx \<Rightarrow> idx(fst iface \<mapsto> (case idx (fst iface) of None \<Rightarrow> []
                                                                   | Some ts \<Rightarrow> ts) @ [T])),
        typeToInterfaces :=
          (typeToInterfaces r)(T \<mapsto> (case typeToInterfaces r T of None \<Rightarrow> [] | Some is \<Rightarrow> is)
                                       @ [iface])\<rparr>"

definition buildIndexPair ::
  "program \<Rightarrow> ty \<Rightarrow> concreteTypeInfo \<Rightarrow> concreteTypeInfo \<Rightarrow> iface \<times> interfaceTypeInfo
   \<Rightarrow> rta \<Rightarrow> rta" where
  "buildIndexPair P T valueInfo ptrInfo e r =
     (let iface = fst e; iinfo = snd e;
          valueFingerprintMatches = (ii_fprint iinfo AND NOT (ci_fprint valueInfo) = 0);
          ptrFingerprintMatches = (ii_fprint iinfo AND NOT (ci_fprint ptrInfo) = 0)
      in if \<not> valueFingerprintMatches \<and> \<not> ptrFingerprintMatches then r
         else if Implements P T (snd iface) \<or> Implements P (Pointer T) (snd iface)
              then indexAppend T iface r
              else r)"

text \<open>The local map \<^verbatim>\<open>iinfoCache\<close>, keyed by pointer: a later entry at the same address
  replaces an earlier one.\<close>

fun cachePut :: "iface \<Rightarrow> interfaceTypeInfo \<Rightarrow> (iface \<times> interfaceTypeInfo) list
    \<Rightarrow> (iface \<times> interfaceTypeInfo) list" where
  "cachePut k v [] = [(k, v)]"
| "cachePut k v ((k', v') # c) =
     (if fst k = fst k' then (k', v) # c else (k', v') # cachePut k v c)"

definition buildCache ::
  "interfaceTypeInfo tmap \<Rightarrow> error + (iface \<times> interfaceTypeInfo) list" where
  "buildCache its =
     foldE (\<lambda>e cache. case asInterfacePtr (Unalias (fst e)) of
                         None \<Rightarrow> Inl TypeAssertionFailed
                       | Some iface \<Rightarrow> Inr (cachePut iface (snd e) cache))
           its []"

definition buildUserTypesIndex :: "program \<Rightarrow> rta \<Rightarrow> error + rta" where
  "buildUserTypesIndex P r =
     (if userTypesIndexBuilt r then Inr r
      else
        let fromRuntime = filter (\<lambda>T. \<not> isInterface (Underlying P T))
                                 (map fst (RuntimeTypes (result r)));
            added = fold addUserType (fromRuntime @ userPackageTypes P) [];
            r1 = r\<lparr>userTypes := userTypes r @ added\<rparr>;
            r2 = fold (\<lambda>T r'. snd (getConcreteTypeInfo P (Pointer T)
                                      (snd (getConcreteTypeInfo P T r'))))
                      (userTypes r1) r1;
            r3 = (if interfaceToTypes r2 = None
                  then r2\<lparr>interfaceToTypes := Some Map.empty, typeToInterfaces := Map.empty\<rparr>
                  else r2)
        in bindE (buildCache (interfaceTypes r3)) (\<lambda>iinfoCache.
             let r4 = fold (\<lambda>T r'.
                         let (valueInfo, ra) = getConcreteTypeInfo P T r';
                             (ptrInfo, rb) = getConcreteTypeInfo P (Pointer T) ra
                         in fold (buildIndexPair P T valueInfo ptrInfo) iinfoCache rb)
                       (userTypes r3) r3
             in Inr (r4\<lparr>userTypesIndexBuilt := True\<rparr>)))"

text \<open>\<^verbatim>\<open>r.interfaceToTypes[iface]\<close>: the entry at the pointer, the nil slice when there is
  none.\<close>

definition index_At :: "rta \<Rightarrow> iface \<Rightarrow> ty list" where
  "index_At r iface =
     (case interfaceToTypes r of
        None \<Rightarrow> []
      | Some idx \<Rightarrow> (case idx (fst iface) of None \<Rightarrow> [] | Some ts \<Rightarrow> ts))"

definition findAllImplementationsInProgram ::
  "program \<Rightarrow> iface \<Rightarrow> rta \<Rightarrow> error + (ty list \<times> rta)" where
  "findAllImplementationsInProgram P iface r =
     bindE (buildUserTypesIndex P r) (\<lambda>r1. Inr (index_At r1 iface, r1))"

definition addTypeToIndex :: "program \<Rightarrow> ty \<Rightarrow> rta \<Rightarrow> error + rta" where
  "addTypeToIndex P T r =
     (if interfaceToTypes r = None then Inr r
      else if isInterface (Underlying P T) then Inr r
      else
        let (cinfo, r1) = getConcreteTypeInfo P T r
        in foldE (\<lambda>e r'.
                    case asInterfacePtr (Unalias (fst e)) of
                      None \<Rightarrow> Inl TypeAssertionFailed
                    | Some iface \<Rightarrow>
                        if ii_fprint (snd e) AND NOT (ci_fprint cinfo) \<noteq> 0 then Inr r'
                        else if Implements P T (snd iface) \<or> Implements P (Pointer T) (snd iface)
                             then Inr (indexAppend T iface r')
                             else Inr r')
                 (interfaceTypes r1) r1)"

section \<open>Type assertions and interface conversions\<close>

definition handleTypeAssert :: "program \<Rightarrow> ty \<Rightarrow> ty \<Rightarrow> rta \<Rightarrow> error + rta" where
  "handleTypeAssert P XType AssertedType r =
     (let toInterface =
            (case asInterfacePtr (Underlying P AssertedType) of
               None \<Rightarrow> Inr r
             | Some iface \<Rightarrow>
                 if length (snd iface) = 0 then Inr r
                 else
                   bindE (buildUserTypesIndex P r) (\<lambda>r1.
                     if isStdlibFunction P (currentFunction r1)
                     then Inr (fold (\<lambda>T r'. if tm_At (RuntimeTypes (result r')) T \<noteq> None
                                             then markInterfaceMethodsReachable P T (snd iface) r'
                                             else r')
                                    (index_At r1 iface) r1)
                     else bindE (findAllImplementationsInProgram P iface r1) (\<lambda>(Ts, r2).
                            Inr (fold (\<lambda>T. markInterfaceMethodsReachable P T (snd iface))
                                      Ts r2))))
      in case asInterface (Underlying P XType) of
           None \<Rightarrow> toInterface
         | Some sourceIface \<Rightarrow>
             if 0 < length sourceIface \<and> \<not> isInterface (Underlying P AssertedType)
             then Inr (markInterfaceMethodsReachable P AssertedType sourceIface r)
             else toInterface)"

definition handleChangeInterface :: "program \<Rightarrow> ty \<Rightarrow> rta \<Rightarrow> error + rta" where
  "handleChangeInterface P Type r =
     (case asInterfacePtr (Underlying P Type) of
        None \<Rightarrow> Inr r
      | Some targetIface \<Rightarrow>
          if length (snd targetIface) = 0 then Inr r
          else bindE (findAllImplementationsInProgram P targetIface r) (\<lambda>(Ts, r1).
                 Inr (fold (\<lambda>T. markInterfaceMethodsReachable P T (snd targetIface)) Ts r1)))"

section \<open>Runtime types\<close>

text \<open>\<^verbatim>\<open>addRuntimeTypeStructure\<close>, with the recursive call to \<^verbatim>\<open>addRuntimeType\<close> as
  the argument \<open>rec\<close>.\<close>

definition addRuntimeTypeStructure_with ::
  "(ty \<Rightarrow> bool \<Rightarrow> rta \<Rightarrow> error + rta) \<Rightarrow> program \<Rightarrow> ty \<Rightarrow> rta \<Rightarrow> error + rta" where
  "addRuntimeTypeStructure_with rec P T r =
     (case T of
        Alias n t \<Rightarrow> rec (Unalias T) True r
      | Pointer e \<Rightarrow> rec e True r
      | Slice e \<Rightarrow> rec e True r
      | Chan e \<Rightarrow> rec e True r
      | MapT k e \<Rightarrow> bindE (rec k True r) (rec e True)
      | Named n \<Rightarrow> bindE (rec (Pointer T) True r) (rec (prog_Underlying P n) True)
      | Array n e \<Rightarrow> rec e True r
      | Struct fs \<Rightarrow> foldE (\<lambda>f. rec (var_Type f) True) fs r
      | Tuple ts \<Rightarrow> foldE (\<lambda>t. rec t True) ts r
      | _ \<Rightarrow> Inr r)"

text \<open>The methods force-marked by \<^verbatim>\<open>addRuntimeType\<close> in a known-safe context: the
  allow-list is read at the name of the \<^emph>\<open>current\<close> function.\<close>

definition markKnownSafeMethods :: "program \<Rightarrow> selection list \<Rightarrow> rta \<Rightarrow> rta" where
  "markKnownSafeMethods P mset r =
     (case currentFunction r of
        None \<Rightarrow> r
      | Some calledFunc \<Rightarrow>
          (case map_of knownSafeFunctions (f_String (prog_Function P calledFunc)) of
             None \<Rightarrow> r
           | Some methodNames \<Rightarrow>
               fold (\<lambda>methodName r'. case Lookup mset None methodName of
                                        None \<Rightarrow> r'
                                      | Some sel \<Rightarrow> markSelection P sel r')
                    methodNames r))"

text \<open>The loop of \<^verbatim>\<open>addRuntimeType\<close> over all exported methods.\<close>

definition markExportedMethods :: "program \<Rightarrow> selection list \<Rightarrow> rta \<Rightarrow> rta" where
  "markExportedMethods P mset r =
     fold (\<lambda>sel r'.
             let m = sel_Obj sel
             in if Exported (m_Name m)
                then
                  if currentFunction r' \<noteq> None \<and> isInKnownSafeContext P r'
                     \<and> (case currentFunction r' of
                           None \<Rightarrow> False
                         | Some cur \<Rightarrow>
                             (case map_of knownSafeFunctions (f_String (prog_Function P cur)) of
                                None \<Rightarrow> False
                              | Some methodNames \<Rightarrow> m_Name m \<in> set methodNames))
                  then r'
                  else markSelection P sel r'
                else r')
          mset r"

text \<open>The second type switch of \<^verbatim>\<open>addRuntimeType\<close>; the \<^verbatim>\<open>default\<close> branch logs a
  warning and goes on.\<close>

definition addRuntimeTypeRecurse ::
  "(ty \<Rightarrow> bool \<Rightarrow> rta \<Rightarrow> error + rta) \<Rightarrow> program \<Rightarrow> ty \<Rightarrow> bool \<Rightarrow> rta \<Rightarrow> error + rta" where
  "addRuntimeTypeRecurse rec P T skip r =
     (case T of
        Alias n t \<Rightarrow> rec (Unalias T) skip r
      | Basic n \<Rightarrow> Inr r
      | Interface a ms \<Rightarrow> Inr r
      | Pointer e \<Rightarrow> rec e skip r
      | Slice e \<Rightarrow> rec e skip r
      | Chan e \<Rightarrow> rec e skip r
      | MapT k e \<Rightarrow> bindE (rec k skip r) (rec e skip)
      | Signature ps rs \<Rightarrow> bindE (rec (Tuple ps) skip r) (rec (Tuple rs) skip)
      | Named n \<Rightarrow>
          bindE (rec (Pointer T) skip r) (\<lambda>r1.
          bindE (rec (prog_Underlying P n) True r1)
                (foldE (\<lambda>m. rec (func_Type m) skip) (prog_Methods P n)))
      | Array n e \<Rightarrow> rec e skip r
      | Struct fs \<Rightarrow> foldE (\<lambda>f. rec (var_Type f) skip) fs r
      | Tuple ts \<Rightarrow> foldE (\<lambda>t. rec t skip) ts r
      | TypeParam n a ms \<Rightarrow> Inr r
      | Union ts \<Rightarrow> Inr r)"

text \<open>
  \<^verbatim>\<open>addRuntimeType\<close>. The recursion of the Go code ends because every call that goes
  on adds a new key to \<open>RuntimeTypes\<close>; the model bounds the depth of the recursion by
  its first argument and answers \<open>OutOfFuel\<close> when the bound is reached.
\<close>

primrec addRuntimeType :: "nat \<Rightarrow> program \<Rightarrow> ty \<Rightarrow> bool \<Rightarrow> rta \<Rightarrow> error + rta" where
  "addRuntimeType 0 = (\<lambda>P T skip r. Inl OutOfFuel)"
| "addRuntimeType (Suc n) = (\<lambda>P T skip r.
     case tm_At (RuntimeTypes (result r)) T of
       Some prev \<Rightarrow>
         Inr (if skip \<and> \<not> prev
              then set_RuntimeTypes (tm_Set (RuntimeTypes (result r)) T skip) r
              else r)
     | None \<Rightarrow>
         let r1 = set_RuntimeTypes (tm_Set (RuntimeTypes (result r)) T skip) r
         in bindE (addTypeToIndex P T r1) (\<lambda>r2.
            bindE (addRuntimeTypeStructure_with (addRuntimeType n P) P T r2) (\<lambda>r3.
            let mset = MethodSet P T
            in bindE (if \<not> skip \<and> \<not> isInterface (Underlying P T)
                      then addInvokeEdgesOfType P T r3 else Inr r3) (\<lambda>r4.
               let safe = (\<not> skip \<and> currentFunction r4 \<noteq> None \<and> isInKnownSafeContext P r4);
                   r5 = (if safe then markKnownSafeMethods P mset r4 else r4);
                   skip' = (if safe then True else skip);
                   r6 = (if \<not> skip' then markExportedMethods P mset r5 else r5)
               in addRuntimeTypeRecurse (addRuntimeType n P) P T skip' r6))))"

definition addRuntimeTypeStructure :: "nat \<Rightarrow> program \<Rightarrow> ty \<Rightarrow> rta \<Rightarrow> error + rta" where
  "addRuntimeTypeStructure n P T r = addRuntimeTypeStructure_with (addRuntimeType n P) P T r"

definition addRuntimeTypeForInterface ::
  "nat \<Rightarrow> program \<Rightarrow> ty \<Rightarrow> tfunc list option \<Rightarrow> bool \<Rightarrow> rta \<Rightarrow> error + rta" where
  "addRuntimeTypeForInterface n P T0 iface skip r =
     (let T = Unalias T0;
          alreadyInRuntimeTypes = (tm_At (RuntimeTypes (result r)) T \<noteq> None);
          r1 = (if \<not> alreadyInRuntimeTypes
                then set_RuntimeTypes (tm_Set (RuntimeTypes (result r)) T skip) r else r);
          mset = MethodSet P T
      in bindE (if \<not> isInterface (Underlying P T)
                then (case iface of
                        None \<Rightarrow> Inl NilPointerDereference
                      | Some ms \<Rightarrow>
                          let r2 = markMethodsIn P mset ms r1
                          in if \<not> alreadyInRuntimeTypes then addInvokeEdgesOfType P T r2
                             else Inr r2)
                else Inr r1) (\<lambda>r3.
           if \<not> alreadyInRuntimeTypes then addRuntimeTypeStructure n P T r3 else Inr r3))"

text \<open>The loop of \<^verbatim>\<open>addRuntimeTypeSelective\<close> over the method set: the test
  \<^verbatim>\<open>m.Exported() && r.shouldMarkMethodForReflection(m)\<close> evaluates its second half only
  for an exported method.\<close>

definition markSelectiveMethods :: "program \<Rightarrow> selection list \<Rightarrow> rta \<Rightarrow> error + rta" where
  "markSelectiveMethods P mset r =
     foldE (\<lambda>sel r'.
              let m = sel_Obj sel
              in if Exported (m_Name m)
                 then bindE (shouldMarkMethodForReflection P r' m) (\<lambda>b.
                        Inr (if b then markSelection P sel r' else r'))
                 else Inr r')
           mset r"

definition addRuntimeTypeSelective :: "program \<Rightarrow> ty \<Rightarrow> bool \<Rightarrow> rta \<Rightarrow> error + rta" where
  "addRuntimeTypeSelective P T0 skip r =
     (let T = Unalias T0
      in if tm_At (RuntimeTypes (result r)) T \<noteq> None then Inr r
         else
           let r1 = set_RuntimeTypes (tm_Set (RuntimeTypes (result r)) T skip) r;
               mset = MethodSet P T
           in if \<not> isInterface (Underlying P T)
              then bindE (markSelectiveMethods P mset r1) (addInvokeEdgesOfType P T)
              else Inr r1)"

section \<open>Pointer-to-interface conversions\<close>

text \<open>What \<^verbatim>\<open>markImplementorsMethodsReachable\<close> does for one member of a package.\<close>

definition markImplementor ::
  "nat \<Rightarrow> program \<Rightarrow> tfunc list \<Rightarrow> string \<times> member \<Rightarrow> rta \<Rightarrow> error + rta" where
  "markImplementor n P targetIface nm r =
     (case snd nm of
        MemberOther \<Rightarrow> Inr r
      | MemberType T \<Rightarrow>
          if isInterface (Underlying P T) then Inr r
          else if Implements P T targetIface \<or> Implements P (Pointer T) targetIface
               then if tm_At (RuntimeTypes (result r)) T \<noteq> None
                    then Inr (markMethodsIn P (MethodSet P T) targetIface r)
                    else addRuntimeType n P T False r
               else Inr r)"

definition markImplementorsMethodsReachable ::
  "nat \<Rightarrow> program \<Rightarrow> tfunc list \<Rightarrow> rta \<Rightarrow> error + rta" where
  "markImplementorsMethodsReachable n P targetIface r =
     foldE (\<lambda>pkg r'. case pkg of
                       None \<Rightarrow> Inr r'
                     | Some p \<Rightarrow>
                         if pkg_Pkg p = None then Inr r'
                         else foldE (markImplementor n P targetIface) (pkg_Members p) r')
           (prog_AllPackages P) r"

definition handleMakeInterface :: "nat \<Rightarrow> program \<Rightarrow> ty \<Rightarrow> ty \<Rightarrow> rta \<Rightarrow> error + rta" where
  "handleMakeInterface n P XType Type r =
     (let iface = asInterface (Underlying P Type)
      in if iface = Some []
         then
           let targetIface =
                 (case XType of
                    Pointer elemType \<Rightarrow>
                      (case elemType of
                         Named nm \<Rightarrow> asInterface (prog_Underlying P nm)
                       | _ \<Rightarrow> asInterface (Underlying P elemType))
                  | _ \<Rightarrow> None)
           in (case targetIface of
                 Some ti \<Rightarrow> markImplementorsMethodsReachable n P ti r
               | None \<Rightarrow>
                   if isInKnownSafeContext P r
                   then addRuntimeTypeSelective P XType False r
                   else addRuntimeType n P XType False r)
         else addRuntimeTypeForInterface n P XType iface False r)"

section \<open>Worklist driver\<close>

text \<open>\<^verbatim>\<open>instr.Operands\<close>: a call lists the called value first, then the arguments.\<close>

definition Operands :: "instr \<Rightarrow> Value option list" where
  "Operands instr =
     (case instr of
        Call c \<Rightarrow> call_Value c # map Some (call_Args c)
      | MakeInterface X XType Type \<Rightarrow> [Some X]
      | TypeAssert X XType AssertedType \<Rightarrow> [Some X]
      | ChangeInterface X Type \<Rightarrow> [Some X]
      | OtherInstr rands \<Rightarrow> rands)"

definition visitOperands :: "program \<Rightarrow> Value option list \<Rightarrow> rta \<Rightarrow> rta" where
  "visitOperands P rands r =
     fold (\<lambda>op r'. case op of Some (FunctionV g) \<Rightarrow> visitAddrTakenFunc P g r' | _ \<Rightarrow> r')
          rands r"

text \<open>The body of the instruction loop of \<^verbatim>\<open>visitFunc\<close>.\<close>

definition visitInstr :: "nat \<Rightarrow> program \<Rightarrow> fid \<Rightarrow> instr \<Rightarrow> rta \<Rightarrow> error + rta" where
  "visitInstr n P f instr r =
     (let rands = Operands instr
      in case instr of
           Call call \<Rightarrow>
             bindE (if IsInvoke call then visitInvoke P call r
                    else (case StaticCallee call of
                            Some g \<Rightarrow>
                              Inr (checkSetFinalizer P call
                                     (addEdge P (Some f) (Some call) (Some g) False r))
                          | None \<Rightarrow>
                              if call_Value call = Some BuiltinV then Inr r
                              else visitDynCall P call r))
                   (\<lambda>r1. Inr (visitOperands P (tl rands) r1))
         | MakeInterface X XType Type \<Rightarrow>
             bindE (handleMakeInterface n P XType Type r) (\<lambda>r1. Inr (visitOperands P rands r1))
         | TypeAssert X XType AssertedType \<Rightarrow>
             bindE (handleTypeAssert P XType AssertedType r) (\<lambda>r1. Inr (visitOperands P rands r1))
         | ChangeInterface X Type \<Rightarrow>
             bindE (handleChangeInterface P Type r) (\<lambda>r1. Inr (visitOperands P rands r1))
         | OtherInstr ops \<Rightarrow> Inr (visitOperands P rands r))"

text \<open>\<^verbatim>\<open>visitFunc\<close>; the deferred function resets \<open>currentFunction\<close> on return.\<close>

definition visitFunc :: "nat \<Rightarrow> program \<Rightarrow> fid \<Rightarrow> rta \<Rightarrow> error + rta" where
  "visitFunc n P f r =
     bindE (foldE (visitInstr n P f) (concat (f_Blocks (prog_Function P f)))
                  (r\<lparr>currentFunction := Some f\<rparr>))
           (\<lambda>r1. Inr (r1\<lparr>currentFunction := None\<rparr>))"

text \<open>
  The fixed-point loop of \<^verbatim>\<open>Analyze\<close>: the worklist is swapped into \<^verbatim>\<open>shadow\<close>, the
  worklist restarts empty, every function of \<^verbatim>\<open>shadow\<close> is visited. The first argument
  bounds the number of rounds and the depth of \<open>addRuntimeType\<close>.
\<close>

primrec Analyze_loop :: "nat \<Rightarrow> nat \<Rightarrow> program \<Rightarrow> rta \<Rightarrow> error + rta" where
  "Analyze_loop 0 = (\<lambda>n P r. if worklist r = [] then Inr r else Inl OutOfFuel)"
| "Analyze_loop (Suc k) = (\<lambda>n P r.
     if worklist r = [] then Inr r
     else
       let shadow = worklist r
       in bindE (foldE (visitFunc n P) shadow (r\<lparr>worklist := []\<rparr>)) (Analyze_loop k n P))"

text \<open>\<^verbatim>\<open>prog.ImportedPackage(path)\<close>.\<close>

definition ImportedPackage :: "program \<Rightarrow> string \<Rightarrow> package option" where
  "ImportedPackage P path =
     (case find (\<lambda>pkg. case pkg of None \<Rightarrow> False | Some p \<Rightarrow> pkg_Pkg p = Some path)
                (prog_AllPackages P) of
        Some (Some p) \<Rightarrow> Some p
      | _ \<Rightarrow> None)"

text \<open>The lookup of \<^verbatim>\<open>(*reflect.Value).Call\<close> at the start of \<^verbatim>\<open>Analyze\<close>.\<close>

definition lookupReflectValueCall :: "program \<Rightarrow> error + fid option" where
  "lookupReflectValueCall P =
     (case ImportedPackage P ''reflect'' of
        None \<Rightarrow> Inr None
      | Some reflectPkg \<Rightarrow>
          (case map_of (pkg_Members reflectPkg) ''Value'' of
             Some (MemberType T) \<Rightarrow> LookupMethod P T (pkg_Pkg reflectPkg) ''Call''
           | _ \<Rightarrow> Inl TypeAssertionFailed))"

definition initial_rta :: "fid option \<Rightarrow> rta" where
  "initial_rta rvc =
     \<lparr>result = \<lparr>Reachable = Map.empty, ReachableObjects = Map.empty, RuntimeTypes = []\<rparr>,
      reflectValueCall = rvc, currentFunction = None, worklist = [],
      addrTakenFuncsBySig = [], dynCallSites = [], invokeSites = [],
      concreteTypes = [], interfaceTypes = [],
      interfaceToTypes = None, typeToInterfaces = Map.empty,
      userTypesIndexBuilt = False, userTypes = []\<rparr>"

text \<open>The state of \<^verbatim>\<open>Analyze\<close> when the loop starts: \<^verbatim>\<open>roots[0].Prog\<close> dereferences
  the first root, then every root goes through \<open>addReachable\<close>.\<close>

definition Analyze_init :: "program \<Rightarrow> fid option list \<Rightarrow> error + rta" where
  "Analyze_init P roots =
     (case roots of
        [] \<Rightarrow> Inl NilPointerDereference
      | None # _ \<Rightarrow> Inl NilPointerDereference
      | Some f # _ \<Rightarrow>
          bindE (lookupReflectValueCall P) (\<lambda>rvc.
            Inr (fold (\<lambda>root. addReachable P root False) roots (initial_rta rvc))))"

text \<open>\<^verbatim>\<open>Analyze\<close>: \<open>Inr None\<close> is the nil result.\<close>

definition Analyze :: "nat \<Rightarrow> program \<Rightarrow> fid option list \<Rightarrow> error + Result option" where
  "Analyze n P roots =
     (if length roots = 0 then Inr None
      else bindE (Analyze_init P roots) (\<lambda>r0.
           bindE (Analyze_loop n n P r0) (\<lambda>r. Inr (Some (result r)))))"

section \<open>Observations and example programs\<close>

text \<open>What a run that returned shows; a run that ended in an error shows nothing.\<close>

definition returns :: "error + 'a \<Rightarrow> bool" where
  "returns res = (case res of Inl e \<Rightarrow> False | Inr x \<Rightarrow> True)"

definition reachable_in :: "error + rta \<Rightarrow> fid \<Rightarrow> bool option" where
  "reachable_in res f = (case res of Inl e \<Rightarrow> None | Inr r \<Rightarrow> Reachable (result r) f)"

definition runtime_type_in :: "error + rta \<Rightarrow> ty \<Rightarrow> bool option" where
  "runtime_type_in res T = (case res of Inl e \<Rightarrow> None | Inr r \<Rightarrow> tm_At (RuntimeTypes (result r)) T)"

definition emptyFunction :: Function where
  "emptyFunction = \<lparr>f_String = [], f_Object = None, f_Origin = None, f_Pkg = None,
     f_Signature = Signature [] [], f_Blocks = []\<rparr>"

definition emptyProgram :: program where
  "emptyProgram = \<lparr>prog_Function = (\<lambda>f. emptyFunction), prog_Underlying = (\<lambda>n. Struct []),
     prog_Methods = (\<lambda>n. []), prog_MethodSets = (\<lambda>T. []), prog_MethodValue = (\<lambda>sel. None),
     prog_AllPackages = []\<rparr>"

text \<open>A static call of \<open>g\<close> with the arguments \<open>args\<close>, inside \<open>f\<close>.\<close>

definition staticCall :: "fid \<Rightarrow> fid \<Rightarrow> Value list \<Rightarrow> instr" where
  "staticCall f g args = Call \<lparr>call_Value = Some (FunctionV g), call_Value_Type = Signature [] [],
     call_Method = None, call_Args = args, call_Parent = f\<rparr>"

text \<open>Generic instantiation: \<^verbatim>\<open>main\<close> calls the instantiation \<^verbatim>\<open>inst\<close> of the template
  \<^verbatim>\<open>tmpl\<close>.\<close>

definition genericProgram :: program where
  "genericProgram = emptyProgram\<lparr>prog_Function := (\<lambda>f.
     if f = ''main'' then emptyFunction\<lparr>f_String := ''main'',
            f_Blocks := [[staticCall ''main'' ''inst'' []]]\<rparr>
     else if f = ''inst'' then emptyFunction\<lparr>f_String := ''inst'', f_Origin := Some ''tmpl''\<rparr>
     else emptyFunction\<lparr>f_String := f\<rparr>)\<rparr>"

text \<open>A finalizer: \<^verbatim>\<open>main\<close> calls \<^verbatim>\<open>runtime.SetFinalizer(r, cleanup)\<close>, the function
  value wrapped in a make-interface.\<close>

definition finalizerProgram :: program where
  "finalizerProgram = emptyProgram\<lparr>prog_Function := (\<lambda>f.
     if f = ''main'' then emptyFunction\<lparr>f_String := ''main'',
            f_Blocks := [[staticCall ''main'' ''runtime.SetFinalizer''
                            [OtherV, MakeInterfaceV (FunctionV ''cleanup'')]]]\<rparr>
     else if f = ''runtime.SetFinalizer''
     then emptyFunction\<lparr>f_String := ''runtime.SetFinalizer'',
            f_Object := Some \<lparr>obj_Pkg = Some ''runtime'', obj_Name = ''SetFinalizer''\<rparr>\<rparr>
     else emptyFunction\<lparr>f_String := f\<rparr>)\<rparr>"

definition finalizerCall :: callCommon where
  "finalizerCall = \<lparr>call_Value = Some (FunctionV ''runtime.SetFinalizer''),
     call_Value_Type = Signature [] [], call_Method = None,
     call_Args = [OtherV, MakeInterfaceV (FunctionV ''cleanup'')], call_Parent = ''main''\<rparr>"

text \<open>The marker-method pattern: \<^verbatim>\<open>type E interface { error; mark() }\<close>, a struct
  \<^verbatim>\<open>A\<close> with the value-receiver methods \<^verbatim>\<open>Error\<close> and \<^verbatim>\<open>mark\<close>, and \<^verbatim>\<open>main\<close>, which
  converts a \<^verbatim>\<open>*E\<close> to the empty interface.\<close>

definition appPath :: string where
  "appPath = ''example.com/app''"

definition E_Error :: tfunc where
  "E_Error = TFunc ''error.Error'' ''Error'' None [] [Basic ''string'']"

definition E_mark :: tfunc where
  "E_mark = TFunc ''E.mark'' ''mark'' (Some appPath) [] []"

definition A_Error :: tfunc where
  "A_Error = TFunc ''A.Error'' ''Error'' (Some appPath) [] [Basic ''string'']"

definition A_mark :: tfunc where
  "A_mark = TFunc ''A.mark'' ''mark'' (Some appPath) [] []"

definition A_msets :: "ty \<Rightarrow> selection list" where
  "A_msets T = (if T = Named ''A'' \<or> T = Pointer (Named ''A'')
     then [\<lparr>sel_Recv = T, sel_Obj = A_Error\<rparr>, \<lparr>sel_Recv = T, sel_Obj = A_mark\<rparr>]
     else [])"

definition markerProgram :: program where
  "markerProgram = \<lparr>
     prog_Function = (\<lambda>f.
       if f = ''main''
       then emptyFunction\<lparr>f_String := ''main'', f_Pkg := Some (Some appPath),
              f_Blocks := [[MakeInterface OtherV (Pointer (Named ''E'')) (Interface 0 [])]]\<rparr>
       else emptyFunction\<lparr>f_String := f, f_Pkg := Some (Some appPath)\<rparr>),
     prog_Underlying = (\<lambda>n. if n = ''E'' then Interface 1 [E_Error, E_mark] else Struct []),
     prog_Methods = (\<lambda>n. if n = ''A'' then [A_Error, A_mark] else []),
     prog_MethodSets = A_msets,
     prog_MethodValue = (\<lambda>sel. Some (m_id (sel_Obj sel))),
     prog_AllPackages = [Some \<lparr>pkg_Pkg = Some appPath,
        pkg_Members = [(''A'', MemberType (Named ''A'')), (''E'', MemberType (Named ''E'')),
                       (''main'', MemberOther)]\<rparr>]\<rparr>"

section \<open>Notions of the specification\<close>

text \<open>The callee of a call is the runtime finalizer-registration function.\<close>

definition spec_calleeIsSetFinalizer :: "program \<Rightarrow> callCommon \<Rightarrow> bool" where
  "spec_calleeIsSetFinalizer P call =
     (case call_Value call of
        Some (FunctionV g) \<Rightarrow>
          (case f_Object (prog_Function P g) of
             None \<Rightarrow> False
           | Some ob \<Rightarrow> obj_Pkg ob = Some ''runtime'' \<and> obj_Name ob = ''SetFinalizer'')
      | _ \<Rightarrow> False)"

text \<open>The function a finalizer argument stands for: a make-interface wrapper is taken
  off if present, then a function is itself and a closure is its underlying function.\<close>

definition spec_finalizerFunction :: "Value \<Rightarrow> fid option" where
  "spec_finalizerFunction v =
     (case (case v of MakeInterfaceV x \<Rightarrow> x | _ \<Rightarrow> v) of
        FunctionV h \<Rightarrow> Some h
      | MakeClosureV h \<Rightarrow> Some h
      | _ \<Rightarrow> None)"

section \<open>Notions for the invariants\<close>

text \<open>No object leaves \<open>ReachableObjects\<close> and no entry goes back from true.\<close>

definition obj_le :: "rta \<Rightarrow> rta \<Rightarrow> bool" where
  "obj_le r r' = (\<forall>ob. (ReachableObjects (result r) ob \<noteq> None
                          \<longrightarrow> ReachableObjects (result r') ob \<noteq> None)
                     \<and> (ReachableObjects (result r) ob = Some True
                          \<longrightarrow> ReachableObjects (result r') ob = Some True))"

text \<open>
  \<open>marks P A rt r r'\<close>: the state \<open>r'\<close> comes from \<open>r\<close> by steps that change
  \<open>Reachable\<close> and the worklist only through \<open>addReachable\<close>, applied to functions
  of \<open>A\<close>; between these steps \<open>ReachableObjects\<close> may grow, \<open>RuntimeTypes\<close> may
  change when \<open>rt\<close> is set, and the bookkeeping fields are free.
\<close>

inductive marks :: "program \<Rightarrow> fid set \<Rightarrow> bool \<Rightarrow> rta \<Rightarrow> rta \<Rightarrow> bool"
  for P :: program and A :: "fid set" and rt :: bool where
  marks_refl: "marks P A rt r r"
| marks_reach: "marks P A rt r r1 \<Longrightarrow> f \<in> A \<Longrightarrow> marks P A rt r (addReachable P (Some f) a r1)"
| marks_frame: "marks P A rt r r1 \<Longrightarrow> Reachable (result r2) = Reachable (result r1)
     \<Longrightarrow> worklist r2 = worklist r1 \<Longrightarrow> obj_le r1 r2
     \<Longrightarrow> (\<not> rt \<longrightarrow> RuntimeTypes (result r2) = RuntimeTypes (result r1))
     \<Longrightarrow> marks P A rt r r2"

text \<open>The result sets grow: no function leaves \<open>Reachable\<close>, no \<open>AddrTaken\<close> flag goes
  back from true, no object leaves \<open>ReachableObjects\<close>.\<close>

definition grows :: "rta \<Rightarrow> rta \<Rightarrow> bool" where
  "grows r r' = ((\<forall>f. Reachable (result r) f \<noteq> None \<longrightarrow> Reachable (result r') f \<noteq> None)
               \<and> (\<forall>f. Reachable (result r) f = Some True \<longrightarrow> Reachable (result r') f = Some True)
               \<and> (\<forall>ob. ReachableObjects (result r) ob \<noteq> None
                        \<longrightarrow> ReachableObjects (result r') ob \<noteq> None))"

text \<open>Every key of \<open>interfaceTypes\<close> is an interface type.\<close>

definition iface_keys :: "rta \<Rightarrow> bool" where
  "iface_keys r =
     list_all (\<lambda>e. isInterface (Unalias (fst e))) (interfaceTypes r)"

text \<open>The bookkeeping functions leave the result, the worklist, the current function, the
  recorded call sites and the address-taken functions alone, and they add no key to
  \<open>interfaceTypes\<close> that is not an interface.\<close>

definition keeps :: "rta \<Rightarrow> rta \<Rightarrow> bool" where
  "keeps r r' = (result r' = result r \<and> worklist r' = worklist r
               \<and> currentFunction r' = currentFunction r \<and> invokeSites r' = invokeSites r
               \<and> dynCallSites r' = dynCallSites r
               \<and> addrTakenFuncsBySig r' = addrTakenFuncsBySig r
               \<and> reflectValueCall r' = reflectValueCall r
               \<and> (iface_keys r \<longrightarrow> iface_keys r'))"

text \<open>The origin templates of the instantiations among \<open>gs\<close>.\<close>

definition templates_of :: "program \<Rightarrow> fid set \<Rightarrow> fid set" where
  "templates_of P gs = {t. \<exists>g\<in>gs. f_Origin (prog_Function P g) = Some t \<and> t \<noteq> g}"

text \<open>
  The loop of \<open>Analyze\<close> with a record of the functions it has scanned, in the order of
  the scans: the same loop as \<open>Analyze_loop\<close>, with one more argument that the loop
  never reads.
\<close>

primrec Analyze_scan :: "nat \<Rightarrow> nat \<Rightarrow> program \<Rightarrow> rta \<Rightarrow> fid list \<Rightarrow> error + (rta \<times> fid list)" where
  "Analyze_scan 0 = (\<lambda>n P r scanned.
     if worklist r = [] then Inr (r, scanned) else Inl OutOfFuel)"
| "Analyze_scan (Suc k) = (\<lambda>n P r scanned.
     if worklist r = [] then Inr (r, scanned)
     else
       let shadow = worklist r
       in bindE (foldE (visitFunc n P) shadow (r\<lparr>worklist := []\<rparr>))
                (\<lambda>r'. Analyze_scan k n P r' (scanned @ shadow)))"

definition Analyze_trace :: "nat \<Rightarrow> program \<Rightarrow> fid option list \<Rightarrow> error + (rta \<times> fid list)" where
  "Analyze_trace n P roots = bindE (Analyze_init P roots) (\<lambda>r0. Analyze_scan n n P r0 [])"

definition scanned_in :: "error + (rta \<times> fid list) \<Rightarrow> fid list" where
  "scanned_in res = (case res of Inl e \<Rightarrow> [] | Inr x \<Rightarrow> snd x)"

definition state_in :: "error + (rta \<times> fid list) \<Rightarrow> error + rta" where
  "state_in res = (case res of Inl e \<Rightarrow> Inl e | Inr x \<Rightarrow> Inr (fst x))"

text \<open>An invoke site of the method \<^verbatim>\<open>Close\<close>, which the type \<^verbatim>\<open>A\<close> of \<open>markerProgram\<close>
  does not have, on a value of interface type.\<close>

definition I_Close :: tfunc where
  "I_Close = TFunc ''Closer.Close'' ''Close'' (Some appPath) [] []"

definition closeSite :: callCommon where
  "closeSite = \<lparr>call_Value = Some OtherV, call_Value_Type = Interface 2 [I_Close],
     call_Method = Some I_Close, call_Args = [], call_Parent = ''main''\<rparr>"

text \<open>Two states for the examples: the initial state after \<^verbatim>\<open>cleanup\<close>, respectively
  \<^verbatim>\<open>inst\<close>, was marked address-taken.\<close>

definition s_fin :: rta where
  "s_fin = addReachable finalizerProgram (Some ''cleanup'') True (initial_rta None)"

definition s_gen :: rta where
  "s_gen = addReachable genericProgram (Some ''inst'') True (initial_rta None)"

text \<open>The marker-method pattern with pointer receivers: the methods of \<^verbatim>\<open>A\<close> are in the
  method set of \<^verbatim>\<open>*A\<close> only. \<open>s_rtA\<close> is a state in which \<^verbatim>\<open>A\<close> is already a runtime
  type.\<close>

definition A_msets_ptr :: "ty \<Rightarrow> selection list" where
  "A_msets_ptr T = (if T = Pointer (Named ''A'')
     then [\<lparr>sel_Recv = T, sel_Obj = A_Error\<rparr>, \<lparr>sel_Recv = T, sel_Obj = A_mark\<rparr>]
     else [])"

definition ptrMarkerProgram :: program where
  "ptrMarkerProgram = markerProgram\<lparr>prog_MethodSets := A_msets_ptr\<rparr>"

definition s_rtA :: rta where
  "s_rtA = set_RuntimeTypes [(Named ''A'', True)] (initial_rta None)"

text \<open>Runtime types stay, and a type whose methods are skipped stays so.\<close>

definition rt_le :: "rta \<Rightarrow> rta \<Rightarrow> bool" where
  "rt_le r r' = (\<forall>k. (tm_At (RuntimeTypes (result r)) k \<noteq> None
                        \<longrightarrow> tm_At (RuntimeTypes (result r')) k \<noteq> None)
                   \<and> (tm_At (RuntimeTypes (result r)) k = Some True
                        \<longrightarrow> tm_At (RuntimeTypes (result r')) k = Some True))"

text \<open>The types one step inside a type: what \<open>addRuntimeTypeStructure\<close> visits, and the
  signatures and tuples that only the second type switch of \<open>addRuntimeType\<close> visits.\<close>

definition structure_types :: "program \<Rightarrow> ty \<Rightarrow> ty list" where
  "structure_types P T =
     (case T of
        Alias n t \<Rightarrow> [Unalias T]
      | Pointer e \<Rightarrow> [e]
      | Slice e \<Rightarrow> [e]
      | Chan e \<Rightarrow> [e]
      | Array n e \<Rightarrow> [e]
      | MapT k e \<Rightarrow> [k, e]
      | Named n \<Rightarrow> [Pointer T, prog_Underlying P n]
      | Struct fs \<Rightarrow> map var_Type fs
      | Tuple ts \<Rightarrow> ts
      | _ \<Rightarrow> [])"

definition signature_types :: "program \<Rightarrow> ty \<Rightarrow> ty list" where
  "signature_types P T =
     (case T of
        Signature ps rs \<Rightarrow> [Tuple ps, Tuple rs]
      | Named n \<Rightarrow> map func_Type (prog_Methods P n)
      | _ \<Rightarrow> [])"

text \<open>What a call of \<open>addRuntimeType\<close> promises about \<open>RuntimeTypes\<close>.\<close>

definition rt_adds :: "(ty \<Rightarrow> bool \<Rightarrow> rta \<Rightarrow> error + rta) \<Rightarrow> bool" where
  "rt_adds rec = (\<forall>T skip r r'. rec T skip r = Inr r' \<longrightarrow>
      rt_le r r' \<and> tm_At (RuntimeTypes (result r')) T \<noteq> None
      \<and> (skip \<longrightarrow> tm_At (RuntimeTypes (result r')) T = Some True))"

text \<open>A method counts as force-marked when its function is reachable and address-taken,
  or, where it has no function, when its object is reachable.\<close>

definition marked :: "program \<Rightarrow> selection \<Rightarrow> rta \<Rightarrow> bool" where
  "marked P sel r =
     (case prog_MethodValue P sel of
        Some fn \<Rightarrow> Reachable (result r) fn = Some True
      | None \<Rightarrow> ReachableObjects (result r) (sel_Obj sel) = Some True)"

text \<open>The method names that a known-safe context selects: the names the allow-list gives
  for an allow-listed function that the current function calls statically, and the eight
  common reflection names.\<close>

definition selected_name :: "program \<Rightarrow> fid \<Rightarrow> string \<Rightarrow> bool" where
  "selected_name P cur name =
     (list_ex (\<lambda>fn. case map_of knownSafeFunctions (f_String (prog_Function P fn)) of
                       None \<Rightarrow> False
                     | Some methods \<Rightarrow> name \<in> set methods)
              (staticCallees P cur)
      \<or> name \<in> set commonReflectionMethods)"

text \<open>The functions of the exported methods of a method set that have a selected name.\<close>

definition selective_targets :: "program \<Rightarrow> fid \<Rightarrow> selection list \<Rightarrow> fid set" where
  "selective_targets P cur mset =
     {fn. \<exists>sel\<in>set mset. Exported (m_Name (sel_Obj sel))
            \<and> selected_name P cur (m_Name (sel_Obj sel)) \<and> prog_MethodValue P sel = Some fn}"

text \<open>The objects of the exported methods of a method set that have a selected name and no
  function.\<close>

definition selective_objects :: "program \<Rightarrow> fid \<Rightarrow> selection list \<Rightarrow> tfunc set" where
  "selective_objects P cur mset =
     {ob. \<exists>sel\<in>set mset. Exported (m_Name (sel_Obj sel))
            \<and> selected_name P cur (m_Name (sel_Obj sel)) \<and> prog_MethodValue P sel = None
            \<and> sel_Obj sel = ob}"

text \<open>The invoke sites recorded so far, and the functions that resolve the method of a
  recorded site on a type or on the pointer to it.\<close>

definition all_sites :: "rta \<Rightarrow> callCommon set" where
  "all_sites r = (\<Union>e\<in>set (invokeSites r). set (snd e))"

definition invoke_targets :: "program \<Rightarrow> callCommon set \<Rightarrow> ty \<Rightarrow> fid set" where
  "invoke_targets P sites U =
     {fn. \<exists>site\<in>sites. \<exists>imethod sel. call_Method site = Some imethod
            \<and> (Lookup (MethodSet P U) (m_Pkg imethod) (m_Name imethod) = Some sel
               \<or> Lookup (MethodSet P (Pointer U)) (m_Pkg imethod) (m_Name imethod) = Some sel)
            \<and> prog_MethodValue P sel = Some fn}"

text \<open>The test that sends a conversion to \<^verbatim>\<open>markImplementorsMethodsReachable\<close>: the
  converted type is a pointer type, and its element is a named type whose underlying type
  is an interface, or a type of another kind whose underlying type is an interface.\<close>

definition pointer_to_interface :: "program \<Rightarrow> ty \<Rightarrow> bool" where
  "pointer_to_interface P T =
     (case T of
        Pointer e \<Rightarrow> (case e of Named nm \<Rightarrow> isInterface (prog_Underlying P nm)
                                | _ \<Rightarrow> isInterface (Underlying P e))
      | _ \<Rightarrow> False)"

text \<open>A program for the known-safe context: \<^verbatim>\<open>main\<close> converts a \<^verbatim>\<open>U\<close> to the empty
  interface and calls \<^verbatim>\<open>encoding/json.Marshal\<close>; \<^verbatim>\<open>U\<close> has the exported value-receiver
  methods \<^verbatim>\<open>MarshalJSON\<close>, \<^verbatim>\<open>String\<close> and \<^verbatim>\<open>Export\<close>; \<^verbatim>\<open>Stringer\<close> is an interface.
  \<open>s_main\<close> is the initial state inside \<^verbatim>\<open>main\<close>, and \<open>s_main_U\<close> the same state with
  \<^verbatim>\<open>U\<close> a runtime type already.\<close>

definition U_methods :: "tfunc list" where
  "U_methods = [TFunc ''U.MarshalJSON'' ''MarshalJSON'' (Some appPath) [] [Slice (Basic ''byte'')],
                TFunc ''U.String'' ''String'' (Some appPath) [] [Basic ''string''],
                TFunc ''U.Export'' ''Export'' (Some appPath) [] []]"

definition jsonProgram :: program where
  "jsonProgram = \<lparr>
     prog_Function = (\<lambda>f.
       if f = ''main''
       then emptyFunction\<lparr>f_String := ''main'', f_Pkg := Some (Some appPath),
              f_Blocks := [[MakeInterface OtherV (Named ''U'') (Interface 0 []),
                            staticCall ''main'' ''encoding/json.Marshal'' [MakeInterfaceV OtherV]]]\<rparr>
       else emptyFunction\<lparr>f_String := f\<rparr>),
     prog_Underlying = (\<lambda>n. if n = ''Stringer''
                            then Interface 1 [TFunc ''Stringer.String'' ''String'' (Some appPath)
                                                [] [Basic ''string'']]
                            else Struct []),
     prog_Methods = (\<lambda>n. if n = ''U'' then U_methods else []),
     prog_MethodSets = (\<lambda>T. if T = Named ''U'' \<or> T = Pointer (Named ''U'')
                             then map (\<lambda>m. \<lparr>sel_Recv = T, sel_Obj = m\<rparr>) U_methods else []),
     prog_MethodValue = (\<lambda>sel. Some (m_id (sel_Obj sel))),
     prog_AllPackages = []\<rparr>"

definition s_main :: rta where
  "s_main = (initial_rta None)\<lparr>currentFunction := Some ''main''\<rparr>"

definition s_main_U :: rta where
  "s_main_U = set_RuntimeTypes [(Named ''U'', True)] s_main"

section \<open>Basic facts\<close>

text \<open>Below \<^verbatim>\<open>U+0080\<close> the uppercase letters are \<^verbatim>\<open>A\<close> to \<^verbatim>\<open>Z\<close>, and a name that starts
  with such a byte starts with that rune.\<close>

lemma UpperTable_ascii:
  "list_all (\<lambda>(lo, hi, stride). (lo = 65 \<and> hi = 90 \<and> stride = 1) \<or> 128 \<le> lo) UpperTable"
  by (simp add: UpperTable_def)

lemma UpperTable_AZ: "(65, 90, 1) \<in> set UpperTable"
  by (simp add: UpperTable_def)

lemma IsUpper_ascii: "r < 128 \<Longrightarrow> IsUpper r = (65 \<le> r \<and> r \<le> 90)"
proof
  assume r: "r < 128" and "IsUpper r"
  then obtain lo hi stride where m: "(lo, hi, stride) \<in> set UpperTable"
    and c: "lo \<le> r" "r \<le> hi"
    by (auto simp add: IsUpper_def list_ex_iff)
  from UpperTable_ascii m have "(lo = 65 \<and> hi = 90 \<and> stride = 1) \<or> 128 \<le> lo"
    by (auto simp add: list_all_iff)
  with r c show "65 \<le> r \<and> r \<le> 90" by auto
next
  assume "r < 128" and "65 \<le> r \<and> r \<le> 90"
  with UpperTable_AZ show "IsUpper r"
    by (auto simp add: IsUpper_def list_ex_iff intro!: bexI [of _ "(65, 90, 1)"])
qed

lemma DecodeRune_ascii: "of_char c < (128::nat) \<Longrightarrow> DecodeRune (c # cs) = of_char c"
  by (simp add: DecodeRune_def)

lemma Exported_ascii:
  "of_char c < (128::nat) \<Longrightarrow>
   Exported (c # cs) = (65 \<le> (of_char c :: nat) \<and> (of_char c :: nat) \<le> 90)"
  by (simp add: Exported_def DecodeRune_ascii IsUpper_ascii)

lemma Exported_Nil [simp]: "\<not> Exported []"
  by (simp add: Exported_def DecodeRune_def RuneError_def IsUpper_def UpperTable_def)

lemma bindE_Inr_iff: "bindE m f = Inr y \<longleftrightarrow> (\<exists>x. m = Inr x \<and> f x = Inr y)"
  by (cases m) (auto simp: bindE_def)

lemma bindE_simps [simp]: "bindE (Inr x) f = f x" "bindE (Inl e) f = Inl e"
  by (simp_all add: bindE_def)

lemma result_set_Reachable [simp]:
  "Reachable (result (set_Reachable m r)) = m"
  "ReachableObjects (result (set_Reachable m r)) = ReachableObjects (result r)"
  "RuntimeTypes (result (set_Reachable m r)) = RuntimeTypes (result r)"
  "worklist (set_Reachable m r) = worklist r"
  "currentFunction (set_Reachable m r) = currentFunction r"
  "invokeSites (set_Reachable m r) = invokeSites r"
  by (simp_all add: set_Reachable_def)

lemma result_set_ReachableObjects [simp]:
  "Reachable (result (set_ReachableObjects m r)) = Reachable (result r)"
  "ReachableObjects (result (set_ReachableObjects m r)) = m"
  "RuntimeTypes (result (set_ReachableObjects m r)) = RuntimeTypes (result r)"
  "worklist (set_ReachableObjects m r) = worklist r"
  "currentFunction (set_ReachableObjects m r) = currentFunction r"
  "invokeSites (set_ReachableObjects m r) = invokeSites r"
  by (simp_all add: set_ReachableObjects_def)

lemma result_set_RuntimeTypes [simp]:
  "Reachable (result (set_RuntimeTypes m r)) = Reachable (result r)"
  "ReachableObjects (result (set_RuntimeTypes m r)) = ReachableObjects (result r)"
  "RuntimeTypes (result (set_RuntimeTypes m r)) = m"
  "worklist (set_RuntimeTypes m r) = worklist r"
  "currentFunction (set_RuntimeTypes m r) = currentFunction r"
  "invokeSites (set_RuntimeTypes m r) = invokeSites r"
  by (simp_all add: set_RuntimeTypes_def)

lemma markGenericTemplateReachable_fields [simp]:
  "worklist (markGenericTemplateReachable P f r) = worklist r"
  "ReachableObjects (result (markGenericTemplateReachable P f r)) = ReachableObjects (result r)"
  "RuntimeTypes (result (markGenericTemplateReachable P f r)) = RuntimeTypes (result r)"
  "currentFunction (markGenericTemplateReachable P f r) = currentFunction r"
  "invokeSites (markGenericTemplateReachable P f r) = invokeSites r"
  by (simp_all add: markGenericTemplateReachable_def split: option.splits)

lemma addReachable_None [simp]: "addReachable P None a r = r"
  by (simp add: addReachable_def)

lemma addReachable_new:
  "Reachable (result r) f = None \<Longrightarrow>
   addReachable P (Some f) a r =
     markGenericTemplateReachable P f
       ((set_Reachable ((Reachable (result r))(f \<mapsto> a)) r)\<lparr>worklist := worklist r @ [f]\<rparr>)"
  by (simp add: addReachable_def Let_def set_Reachable_def)

lemma addReachable_old:
  "Reachable (result r) f = Some b \<Longrightarrow>
   addReachable P (Some f) a r = set_Reachable ((Reachable (result r))(f \<mapsto> (a \<or> b))) r"
  by (auto simp add: addReachable_def Let_def set_Reachable_def)

lemma addReachable_fields [simp]:
  "ReachableObjects (result (addReachable P fo a r)) = ReachableObjects (result r)"
  "RuntimeTypes (result (addReachable P fo a r)) = RuntimeTypes (result r)"
  "currentFunction (addReachable P fo a r) = currentFunction r"
  "invokeSites (addReachable P fo a r) = invokeSites r"
  by (cases fo; cases "Reachable (result r) (the fo)";
      simp add: addReachable_new addReachable_old set_Reachable_def)+

lemma addReachableObject_fields [simp]:
  "Reachable (result (addReachableObject obj r)) = Reachable (result r)"
  "RuntimeTypes (result (addReachableObject obj r)) = RuntimeTypes (result r)"
  "worklist (addReachableObject obj r) = worklist r"
  "currentFunction (addReachableObject obj r) = currentFunction r"
  "invokeSites (addReachableObject obj r) = invokeSites r"
  by (simp_all add: addReachableObject_def split: option.splits)

lemma Reachable_addReachable_self:
  "Reachable (result (addReachable P (Some f) a r)) f =
     Some (a \<or> (case Reachable (result r) f of None \<Rightarrow> False | Some b \<Rightarrow> b))"
  by (cases "Reachable (result r) f")
     (auto simp add: addReachable_new addReachable_old markGenericTemplateReachable_def
        split: option.splits)

section \<open>The marking relation\<close>

lemma obj_le_refl [simp]: "obj_le r r"
  by (simp add: obj_le_def)

lemma obj_le_trans: "obj_le r1 r2 \<Longrightarrow> obj_le r2 r3 \<Longrightarrow> obj_le r1 r3"
  by (simp add: obj_le_def)

lemma obj_le_eq: "ReachableObjects (result r') = ReachableObjects (result r) \<Longrightarrow> obj_le r r'"
  by (simp add: obj_le_def)

lemma marks_trans: "marks P A rt r1 r2 \<Longrightarrow> marks P A rt r r1 \<Longrightarrow> marks P A rt r r2"
  by (induction rule: marks.induct) (auto intro: marks.intros)

lemma marks_mono: "marks P A rt r r' \<Longrightarrow> A \<subseteq> B \<Longrightarrow> (rt \<longrightarrow> rt') \<Longrightarrow> marks P B rt' r r'"
  by (induction rule: marks.induct) (auto intro: marks.intros)

lemma marks_weaken: "marks P A rt r r' \<Longrightarrow> marks P UNIV True r r'"
  by (erule marks_mono) simp_all

lemma marks_step:
  "Reachable (result r') = Reachable (result r) \<Longrightarrow> worklist r' = worklist r
   \<Longrightarrow> obj_le r r' \<Longrightarrow> (\<not> rt \<longrightarrow> RuntimeTypes (result r') = RuntimeTypes (result r))
   \<Longrightarrow> marks P A rt r r'"
  by (rule marks_frame [OF marks_refl])

lemma iface_keys_upd [simp]:
  "iface_keys (s\<lparr>result := x0\<rparr>) = iface_keys s"
  "iface_keys (s\<lparr>reflectValueCall := x1\<rparr>) = iface_keys s"
  "iface_keys (s\<lparr>currentFunction := x2\<rparr>) = iface_keys s"
  "iface_keys (s\<lparr>worklist := x12\<rparr>) = iface_keys s"
  "iface_keys (s\<lparr>addrTakenFuncsBySig := x3\<rparr>) = iface_keys s"
  "iface_keys (s\<lparr>dynCallSites := x4\<rparr>) = iface_keys s"
  "iface_keys (s\<lparr>invokeSites := x5\<rparr>) = iface_keys s"
  "iface_keys (s\<lparr>concreteTypes := x6\<rparr>) = iface_keys s"
  "iface_keys (s\<lparr>interfaceToTypes := x8\<rparr>) = iface_keys s"
  "iface_keys (s\<lparr>typeToInterfaces := x9\<rparr>) = iface_keys s"
  "iface_keys (s\<lparr>userTypesIndexBuilt := x10\<rparr>) = iface_keys s"
  "iface_keys (s\<lparr>userTypes := x11\<rparr>) = iface_keys s"
  by (simp_all add: iface_keys_def)

lemma asInterfacePtr_None: "asInterfacePtr U = None \<longleftrightarrow> \<not> isInterface U"
  by (cases U) (simp_all add: asInterfacePtr_def isInterface_def asInterface_def)

lemma asInterfacePtr_Some:
  "asInterfacePtr U = Some I \<Longrightarrow> U = iface_Type I \<and> asInterface U = Some (snd I)"
  by (cases U) (auto simp add: asInterfacePtr_def iface_Type_def asInterface_def)

lemma iface_Type_simps [simp]:
  "isInterface (iface_Type I)" "Unalias (iface_Type I) = iface_Type I"
  "asInterfacePtr (iface_Type I) = Some I" "asInterface (iface_Type I) = Some (snd I)"
  by (simp_all add: iface_Type_def isInterface_def asInterface_def asInterfacePtr_def)

lemma iface_keys_interfaceTypes [simp]:
  "iface_keys (s\<lparr>interfaceTypes := m\<rparr>) = list_all (\<lambda>e. isInterface (Unalias (fst e))) m"
  by (simp add: iface_keys_def)

lemma iface_keys_fold [simp]:
  "list_all (\<lambda>e. isInterface (Unalias (fst e))) (interfaceTypes s) = iface_keys s"
  by (simp add: iface_keys_def)

lemma list_all_tm_Set_iface [simp]:
  "list_all (\<lambda>e. isInterface (Unalias (fst e))) (tm_Set m (iface_Type I) v)
     = list_all (\<lambda>e. isInterface (Unalias (fst e))) m"
proof (induction m)
  case Nil
  show ?case by simp
next
  case (Cons e m)
  show ?case
    by (cases e; cases "Identical (iface_Type I) (fst e)") (simp_all add: Cons.IH)
qed

lemma keeps_refl [simp]: "keeps r r"
  by (simp add: keeps_def)

lemma keeps_trans: "keeps r1 r2 \<Longrightarrow> keeps r2 r3 \<Longrightarrow> keeps r1 r3"
  by (simp add: keeps_def)

lemma keeps_marks: "keeps r r' \<Longrightarrow> marks P A rt r r'"
  by (rule marks_step) (simp_all add: keeps_def obj_le_def)

lemma marks_addReachable: "fo = None \<or> (\<exists>f. fo = Some f \<and> f \<in> A) \<Longrightarrow> marks P A rt r (addReachable P fo a r)"
  by (cases fo) (auto intro: marks.intros)

lemma marks_addReachableObject: "marks P A rt r (addReachableObject obj r)"
  by (rule marks_step) (auto simp add: addReachableObject_def obj_le_def split: option.splits)

lemma marks_fold:
  "(\<And>x r. x \<in> set xs \<Longrightarrow> marks P A rt r (f x r)) \<Longrightarrow> marks P A rt r (fold f xs r)"
proof (induction xs arbitrary: r)
  case Nil
  show ?case by (simp add: marks_refl)
next
  case (Cons x xs)
  have "marks P A rt (f x r) (fold f xs (f x r))"
    by (rule Cons.IH) (simp add: Cons.prems)
  moreover have "marks P A rt r (f x r)"
    by (simp add: Cons.prems)
  ultimately show ?case
    by (simp add: marks_trans)
qed

lemma foldE_Cons_Inr:
  "foldE f (x # xs) s = Inr s' \<longleftrightarrow> (\<exists>s1. f x s = Inr s1 \<and> foldE f xs s1 = Inr s')"
  by (simp add: bindE_Inr_iff)

text \<open>A relation that is reflexive, transitive and holds for every round of a loop holds
  for the loop.\<close>

lemma foldE_rel:
  assumes refl: "\<And>s. R s s"
    and trans: "\<And>s1 s2 s3. R s1 s2 \<Longrightarrow> R s2 s3 \<Longrightarrow> R s1 s3"
    and step: "\<And>x s s'. x \<in> set xs \<Longrightarrow> f x s = Inr s' \<Longrightarrow> R s s'"
  shows "foldE f xs s = Inr s' \<Longrightarrow> R s s'"
  using step
proof (induction xs arbitrary: s)
  case Nil
  then show ?case by (simp add: refl)
next
  case (Cons x xs)
  from Cons.prems(1) obtain s1 where s1: "f x s = Inr s1" "foldE f xs s1 = Inr s'"
    by (auto simp add: bindE_Inr_iff)
  have "R s s1" using s1(1) Cons.prems(2) [of x s s1] by simp
  moreover have "R s1 s'"
  proof (rule Cons.IH [OF s1(2)])
    fix y t t' assume "y \<in> set xs" "f y t = Inr t'"
    then show "R t t'" using Cons.prems(2) [of y t t'] by simp
  qed
  ultimately show ?case by (rule trans)
qed

lemma marks_foldE:
  "(\<And>x r r'. x \<in> set xs \<Longrightarrow> f x r = Inr r' \<Longrightarrow> marks P A rt r r')
   \<Longrightarrow> foldE f xs r = Inr r' \<Longrightarrow> marks P A rt r r'"
  by (rule foldE_rel [where R = "marks P A rt" and f = f and xs = xs])
     (auto intro: marks_refl marks_trans)

lemma keeps_fold:
  "(\<And>x r. x \<in> set xs \<Longrightarrow> keeps r (f x r)) \<Longrightarrow> keeps r (fold f xs r)"
proof (induction xs arbitrary: r)
  case Nil
  show ?case by simp
next
  case (Cons x xs)
  have "keeps (f x r) (fold f xs (f x r))"
    by (rule Cons.IH) (simp add: Cons.prems)
  moreover have "keeps r (f x r)"
    by (simp add: Cons.prems)
  ultimately show ?case
    by (auto intro: keeps_trans)
qed

lemma keeps_foldE:
  "(\<And>x r r'. x \<in> set xs \<Longrightarrow> f x r = Inr r' \<Longrightarrow> keeps r r')
   \<Longrightarrow> foldE f xs r = Inr r' \<Longrightarrow> keeps r r'"
  by (rule foldE_rel [where R = keeps and f = f and xs = xs])
     (auto intro: keeps_trans)

section \<open>What the marking relation gives\<close>

lemma grows_refl [simp]: "grows r r"
  by (simp add: grows_def)

lemma grows_trans: "grows r1 r2 \<Longrightarrow> grows r2 r3 \<Longrightarrow> grows r1 r3"
  by (simp add: grows_def)

lemma grows_addReachable: "grows r (addReachable P fo a r)"
proof (cases fo)
  case None
  then show ?thesis by simp
next
  case (Some f)
  show ?thesis
  proof (cases "Reachable (result r) f")
    case None
    then show ?thesis
      using Some
      by (auto simp add: grows_def addReachable_new markGenericTemplateReachable_def
          split: option.splits)
  next
    case (Some b)
    then show ?thesis
      using \<open>fo = Some f\<close> by (auto simp add: grows_def addReachable_old)
  qed
qed

lemma marks_grows: "marks P A rt r r' \<Longrightarrow> grows r r'"
proof (induction rule: marks.induct)
  case (marks_refl r)
  show ?case by simp
next
  case (marks_reach r r1 f a)
  then show ?case by (blast intro: grows_trans grows_addReachable)
next
  case (marks_frame r r1 r2)
  have "grows r1 r2"
    using marks_frame.hyps by (simp add: grows_def obj_le_def)
  with marks_frame.IH show ?case by (rule grows_trans)
qed

lemma marks_obj_le: "marks P A rt r r' \<Longrightarrow> obj_le r r'"
  by (induction rule: marks.induct) (auto intro: obj_le_trans simp add: obj_le_def)

lemma marks_RuntimeTypes:
  "marks P A False r r' \<Longrightarrow> RuntimeTypes (result r') = RuntimeTypes (result r)"
  by (induction rule: marks.induct) simp_all

section \<open>Every operation of the engine marks\<close>

lemma marks_upd:
  "marks P A rt r s \<Longrightarrow> marks P A rt r (s\<lparr>reflectValueCall := x1\<rparr>)"
  "marks P A rt r s \<Longrightarrow> marks P A rt r (s\<lparr>currentFunction := x2\<rparr>)"
  "marks P A rt r s \<Longrightarrow> marks P A rt r (s\<lparr>addrTakenFuncsBySig := x3\<rparr>)"
  "marks P A rt r s \<Longrightarrow> marks P A rt r (s\<lparr>dynCallSites := x4\<rparr>)"
  "marks P A rt r s \<Longrightarrow> marks P A rt r (s\<lparr>invokeSites := x5\<rparr>)"
  "marks P A rt r s \<Longrightarrow> marks P A rt r (s\<lparr>concreteTypes := x6\<rparr>)"
  "marks P A rt r s \<Longrightarrow> marks P A rt r (s\<lparr>interfaceTypes := x7\<rparr>)"
  "marks P A rt r s \<Longrightarrow> marks P A rt r (s\<lparr>interfaceToTypes := x8\<rparr>)"
  "marks P A rt r s \<Longrightarrow> marks P A rt r (s\<lparr>typeToInterfaces := x9\<rparr>)"
  "marks P A rt r s \<Longrightarrow> marks P A rt r (s\<lparr>userTypesIndexBuilt := x10\<rparr>)"
  "marks P A rt r s \<Longrightarrow> marks P A rt r (s\<lparr>userTypes := x11\<rparr>)"
  by (erule marks_frame; simp add: obj_le_def)+

lemma marks_then_addReachable:
  "marks P UNIV rt r s \<Longrightarrow> marks P UNIV rt r (addReachable P fo a s)"
  by (cases fo) (auto intro: marks.intros)

lemma marks_then_addEdge:
  "marks P UNIV rt r s \<Longrightarrow> marks P UNIV rt r (addEdge P caller site callee a s)"
  by (simp add: addEdge_def marks_then_addReachable)

lemma marks_then_addReachableObject:
  "marks P A rt r s \<Longrightarrow> marks P A rt r (addReachableObject obj s)"
  by (rule marks_trans [OF marks_addReachableObject])

lemma marks_markSelection:
  "(\<And>fn. prog_MethodValue P sel = Some fn \<Longrightarrow> fn \<in> A) \<Longrightarrow> marks P A rt r (markSelection P sel r)"
  by (auto simp add: markSelection_def intro: marks_addReachable marks_addReachableObject
      split: option.splits)

lemma marks_then_markSelection:
  "marks P UNIV rt r s \<Longrightarrow> marks P UNIV rt r (markSelection P sel s)"
  by (rule marks_trans [OF marks_markSelection]) simp_all

lemma marks_then_fold:
  "(\<And>x s. marks P A rt s (f x s)) \<Longrightarrow> marks P A rt r s \<Longrightarrow> marks P A rt r (fold f xs s)"
  by (rule marks_trans [OF marks_fold])

lemmas marks_intros = marks_refl marks_upd marks_then_addReachable marks_then_addEdge
  marks_then_addReachableObject marks_then_markSelection

lemma marks_visitAddrTakenFunc: "marks P UNIV rt r (visitAddrTakenFunc P f r)"
  unfolding visitAddrTakenFunc_def Let_def
  by (auto intro!: marks_intros marks_then_fold)

lemma marks_then_visitAddrTakenFunc:
  "marks P UNIV rt r s \<Longrightarrow> marks P UNIV rt r (visitAddrTakenFunc P f s)"
  by (rule marks_trans [OF marks_visitAddrTakenFunc])

lemma marks_visitDynCall: "visitDynCall P site r = Inr r' \<Longrightarrow> marks P UNIV rt r r'"
  unfolding visitDynCall_def Let_def
  by (auto simp add: bindE_Inr_iff intro!: marks_intros marks_then_fold)

lemma keeps_upd:
  "keeps r s \<Longrightarrow> keeps r (s\<lparr>concreteTypes := x6\<rparr>)"
  "keeps r s \<Longrightarrow> keeps r (s\<lparr>interfaceToTypes := x8\<rparr>)"
  "keeps r s \<Longrightarrow> keeps r (s\<lparr>typeToInterfaces := x9\<rparr>)"
  "keeps r s \<Longrightarrow> keeps r (s\<lparr>userTypesIndexBuilt := x10\<rparr>)"
  "keeps r s \<Longrightarrow> keeps r (s\<lparr>userTypes := x11\<rparr>)"
  by (simp_all add: keeps_def)

lemma keeps_then_fold:
  "(\<And>x s. keeps s (f x s)) \<Longrightarrow> keeps r s \<Longrightarrow> keeps r (fold f xs s)"
  by (rule keeps_trans [OF _ keeps_fold])

lemma keeps_getConcreteTypeInfo: "keeps r (snd (getConcreteTypeInfo P C r))"
  by (simp add: getConcreteTypeInfo_def Let_def keeps_def split: option.splits)

lemma keeps_then_getConcreteTypeInfo:
  "keeps r s \<Longrightarrow> keeps r (snd (getConcreteTypeInfo P C s))"
  by (rule keeps_trans [OF _ keeps_getConcreteTypeInfo])

lemma keeps_getInterfaceTypeInfo: "keeps r (snd (getInterfaceTypeInfo P I r))"
  by (simp add: getInterfaceTypeInfo_def Let_def keeps_def split: option.splits)

lemma keeps_interfaces: "interfaces P C r = Inr (Is, r') \<Longrightarrow> keeps r r'"
  using keeps_getConcreteTypeInfo [of r P C]
  by (auto simp add: interfaces_def Let_def bindE_Inr_iff keeps_def
      split: prod.splits if_splits)

lemma keeps_implementations: "keeps r (snd (implementations P I r))"
  using keeps_getInterfaceTypeInfo [of r P I]
  by (auto simp add: implementations_def Let_def keeps_def
      split: prod.splits option.splits)

lemma addInvokeEdge_cases:
  "addInvokeEdge P site C r = Inr r' \<Longrightarrow>
   r' = r \<or> (\<exists>imethod sel. call_Method site = Some imethod
      \<and> (Lookup (MethodSet P (Unalias C)) (m_Pkg imethod) (m_Name imethod) = Some sel
         \<or> Lookup (MethodSet P (Pointer (Unalias C))) (m_Pkg imethod) (m_Name imethod) = Some sel)
      \<and> r' = addReachable P (prog_MethodValue P sel) True r)"
  by (auto simp add: addInvokeEdge_def Let_def LookupMethod_def addEdge_def bindE_Inr_iff
      split: option.splits if_splits)

lemma marks_addInvokeEdge: "addInvokeEdge P site C r = Inr r' \<Longrightarrow> marks P UNIV rt r r'"
  by (drule addInvokeEdge_cases) (auto intro: marks_intros)

lemma marks_visitInvoke: "visitInvoke P site r = Inr r' \<Longrightarrow> marks P UNIV rt r r'"
proof -
  assume a: "visitInvoke P site r = Inr r'"
  then obtain I where I: "asInterfacePtr (Underlying P (call_Value_Type site)) = Some I"
    by (auto simp add: visitInvoke_def split: option.splits)
  let ?r1 = "r\<lparr>invokeSites := tm_Set (invokeSites r) (iface_Type I)
                 (at_list (invokeSites r) (iface_Type I) @ [site])\<rparr>"
  obtain Cs r2 where impl: "implementations P I ?r1 = (Cs, r2)"
    by (cases "implementations P I ?r1")
  from a I impl have f: "foldE (addInvokeEdge P site) Cs r2 = Inr r'"
    by (auto simp add: visitInvoke_def Let_def split: option.splits)
  have 1: "marks P UNIV rt r ?r1"
    by (intro marks_intros)
  have 2: "marks P UNIV rt ?r1 r2"
    using keeps_implementations [of ?r1 P I] impl by (simp add: keeps_marks)
  have 3: "marks P UNIV rt r2 r'"
    using f by (rule marks_foldE [rotated]) (rule marks_addInvokeEdge)
  show ?thesis
    by (rule marks_trans [OF 3 marks_trans [OF 2 1]])
qed

lemma marks_addInvokeEdgesOfType:
  "addInvokeEdgesOfType P T r = Inr r' \<Longrightarrow> marks P UNIV rt r r'"
proof -
  assume a: "addInvokeEdgesOfType P T r = Inr r'"
  then obtain Is r1 where i: "interfaces P T r = Inr (Is, r1)"
    and f: "foldE (\<lambda>I r'. foldE (\<lambda>site. addInvokeEdge P site T)
                             (at_list (invokeSites r') (iface_Type I)) r') Is r1 = Inr r'"
    by (auto simp add: addInvokeEdgesOfType_def bindE_Inr_iff)
  have 1: "marks P UNIV rt r r1"
    using keeps_interfaces [OF i] by (rule keeps_marks)
  have 2: "marks P UNIV rt r1 r'"
    using f
    by (rule marks_foldE [rotated]) (erule marks_foldE [rotated], erule marks_addInvokeEdge)
  show ?thesis
    by (rule marks_trans [OF 2 1])
qed

section \<open>Finalizer detection\<close>

lemma finalizer_arg_cases:
  "(case (case v of MakeInterfaceV x \<Rightarrow> x | _ \<Rightarrow> v) of
      FunctionV fn \<Rightarrow> addReachable P (Some fn) True r
    | MakeClosureV closureFn \<Rightarrow> addReachable P (Some closureFn) True r
    | _ \<Rightarrow> r)
   = addReachable P (spec_finalizerFunction v) True r"
proof (cases v)
  case (MakeInterfaceV x)
  then show ?thesis
    by (cases x) (simp_all add: spec_finalizerFunction_def addReachable_def)
qed (simp_all add: spec_finalizerFunction_def addReachable_def)

lemma checkSetFinalizer_eq:
  "checkSetFinalizer P call r =
     (if \<not> IsInvoke call \<and> spec_calleeIsSetFinalizer P call \<and> 2 \<le> length (call_Args call)
      then addReachable P (spec_finalizerFunction (call_Args call ! 1)) True r
      else r)"
proof (cases "call_Value call")
  case None
  then show ?thesis
    by (simp add: checkSetFinalizer_def spec_calleeIsSetFinalizer_def)
next
  case (Some v)
  show ?thesis
  proof (cases v)
    case (FunctionV g)
    show ?thesis
    proof (cases "f_Object (prog_Function P g)")
      case None
      with Some FunctionV show ?thesis
        by (simp add: checkSetFinalizer_def spec_calleeIsSetFinalizer_def)
    next
      case (Some ob)
      with \<open>call_Value call = Some v\<close> FunctionV show ?thesis
        unfolding checkSetFinalizer_def spec_calleeIsSetFinalizer_def Let_def finalizer_arg_cases
        by (auto simp add: not_less)
    qed
  qed (use Some in \<open>simp_all add: checkSetFinalizer_def spec_calleeIsSetFinalizer_def\<close>)
qed

lemma marks_checkSetFinalizer: "marks P UNIV rt r (checkSetFinalizer P call r)"
  by (simp add: checkSetFinalizer_eq marks_intros)

lemma marks_then_checkSetFinalizer:
  "marks P UNIV rt r s \<Longrightarrow> marks P UNIV rt r (checkSetFinalizer P call s)"
  by (rule marks_trans [OF marks_checkSetFinalizer])

lemma marks_markMethodsIn: "marks P UNIV rt r (markMethodsIn P mset iface r)"
  unfolding markMethodsIn_def
  by (rule marks_fold) (auto intro!: marks_intros split: option.splits)

lemma marks_then_markMethodsIn:
  "marks P UNIV rt r s \<Longrightarrow> marks P UNIV rt r (markMethodsIn P mset iface s)"
  by (rule marks_trans [OF marks_markMethodsIn])

lemma marks_markInterfaceMethodsReachable:
  "marks P UNIV rt r (markInterfaceMethodsReachable P T iface r)"
  unfolding markInterfaceMethodsReachable_def Let_def
  by (rule marks_fold, rule marks_fold) (auto intro!: marks_intros split: option.splits)

lemma marks_then_markInterfaceMethodsReachable:
  "marks P UNIV rt r s \<Longrightarrow> marks P UNIV rt r (markInterfaceMethodsReachable P T iface s)"
  by (rule marks_trans [OF marks_markInterfaceMethodsReachable])

lemma keeps_indexAppend: "keeps r (indexAppend T iface r)"
  by (simp add: indexAppend_def keeps_def)

lemma keeps_buildIndexPair: "keeps r (buildIndexPair P T vi pi e r)"
  by (simp add: buildIndexPair_def Let_def keeps_indexAppend)

lemma keeps_buildUserTypesIndex: "buildUserTypesIndex P r = Inr r' \<Longrightarrow> keeps r r'"
proof (cases "userTypesIndexBuilt r")
  case True
  assume "buildUserTypesIndex P r = Inr r'"
  with True show ?thesis by (simp add: buildUserTypesIndex_def)
next
  case False
  assume a: "buildUserTypesIndex P r = Inr r'"
  define added where "added = fold addUserType
     (filter (\<lambda>T. \<not> isInterface (Underlying P T)) (map fst (RuntimeTypes (result r)))
      @ userPackageTypes P) []"
  define r1 where "r1 = r\<lparr>userTypes := userTypes r @ added\<rparr>"
  define r2 where "r2 = fold (\<lambda>T r'. snd (getConcreteTypeInfo P (Pointer T)
                                      (snd (getConcreteTypeInfo P T r')))) (userTypes r1) r1"
  define r3 where "r3 = (if interfaceToTypes r2 = None
                  then r2\<lparr>interfaceToTypes := Some Map.empty, typeToInterfaces := Map.empty\<rparr>
                  else r2)"
  define step where "step = (\<lambda>iinfoCache T r'.
                         let (valueInfo, ra) = getConcreteTypeInfo P T r';
                             (ptrInfo, rb) = getConcreteTypeInfo P (Pointer T) ra
                         in fold (buildIndexPair P T valueInfo ptrInfo) iinfoCache rb)"
  have eq: "buildUserTypesIndex P r =
      bindE (buildCache (interfaceTypes r3))
        (\<lambda>c. Inr ((fold (step c) (userTypes r3) r3)\<lparr>userTypesIndexBuilt := True\<rparr>))"
    using False
    by (simp add: buildUserTypesIndex_def Let_def added_def r1_def r2_def r3_def step_def)
  from a obtain c where r': "r' = (fold (step c) (userTypes r3) r3)\<lparr>userTypesIndexBuilt := True\<rparr>"
    unfolding eq by (auto simp add: bindE_Inr_iff)
  have k1: "keeps r r1"
    by (simp add: r1_def keeps_def)
  have k2: "keeps r1 r2"
    unfolding r2_def
    by (rule keeps_fold) (intro keeps_then_getConcreteTypeInfo keeps_refl)
  have k3: "keeps r2 r3"
    by (simp add: r3_def keeps_def)
  have k4: "keeps r3 (fold (step c) (userTypes r3) r3)"
  proof (rule keeps_fold)
    fix T s
    show "keeps s (step c T s)"
      unfolding step_def Let_def split_def
      by (rule keeps_then_fold [OF keeps_buildIndexPair])
         (intro keeps_then_getConcreteTypeInfo keeps_refl)
  qed
  have k5: "keeps (fold (step c) (userTypes r3) r3) r'"
    by (simp add: r' keeps_def)
  show ?thesis
    by (rule keeps_trans [OF k1 keeps_trans [OF k2 keeps_trans [OF k3 keeps_trans [OF k4 k5]]]])
qed

lemma keeps_findAllImplementationsInProgram:
  "findAllImplementationsInProgram P iface r = Inr (Ts, r') \<Longrightarrow> keeps r r'"
  by (auto simp add: findAllImplementationsInProgram_def bindE_Inr_iff
      dest: keeps_buildUserTypesIndex)

lemma keeps_addTypeToIndex: "addTypeToIndex P T r = Inr r' \<Longrightarrow> keeps r r'"
proof -
  assume a: "addTypeToIndex P T r = Inr r'"
  show ?thesis
  proof (cases "interfaceToTypes r = None \<or> isInterface (Underlying P T)")
    case True
    with a show ?thesis by (auto simp add: addTypeToIndex_def split: if_splits)
  next
    case False
    obtain cinfo r1 where g: "getConcreteTypeInfo P T r = (cinfo, r1)"
      by (cases "getConcreteTypeInfo P T r")
    have k1: "keeps r r1"
      using keeps_getConcreteTypeInfo [of r P T] g by simp
    from False have nn: "interfaceToTypes r \<noteq> None" "\<not> isInterface (Underlying P T)"
      by auto
    from a g have "foldE (\<lambda>e r'.
                    case asInterfacePtr (Unalias (fst e)) of
                      None \<Rightarrow> Inl TypeAssertionFailed
                    | Some iface \<Rightarrow>
                        if ii_fprint (snd e) AND NOT (ci_fprint cinfo) \<noteq> 0 then Inr r'
                        else if Implements P T (snd iface) \<or> Implements P (Pointer T) (snd iface)
                             then Inr (indexAppend T iface r')
                             else Inr r')
                 (interfaceTypes r1) r1 = Inr r'"
      by (simp add: addTypeToIndex_def Let_def nn)
    then have k2: "keeps r1 r'"
    proof (rule keeps_foldE [rotated])
      fix e s s'
      assume "(case asInterfacePtr (Unalias (fst e)) of
                      None \<Rightarrow> Inl TypeAssertionFailed
                    | Some iface \<Rightarrow>
                        if ii_fprint (snd e) AND NOT (ci_fprint cinfo) \<noteq> 0 then Inr s
                        else if Implements P T (snd iface) \<or> Implements P (Pointer T) (snd iface)
                             then Inr (indexAppend T iface s)
                             else Inr s) = Inr s'"
      then have "s' = s \<or> (\<exists>iface. s' = indexAppend T iface s)"
        by (cases "asInterfacePtr (Unalias (fst e))") (auto split: if_splits)
      then show "keeps s s'"
        by (auto simp add: keeps_indexAppend)
    qed
    show ?thesis by (rule keeps_trans [OF k1 k2])
  qed
qed

lemma marks_handleTypeAssert:
  "handleTypeAssert P XT AT r = Inr r' \<Longrightarrow> marks P UNIV rt r r'"
proof -
  assume a: "handleTypeAssert P XT AT r = Inr r'"
  define toInterface where "toInterface =
            (case asInterfacePtr (Underlying P AT) of
               None \<Rightarrow> Inr r
             | Some iface \<Rightarrow>
                 if length (snd iface) = 0 then Inr r
                 else
                   bindE (buildUserTypesIndex P r) (\<lambda>r1.
                     if isStdlibFunction P (currentFunction r1)
                     then Inr (fold (\<lambda>T r'. if tm_At (RuntimeTypes (result r')) T \<noteq> None
                                             then markInterfaceMethodsReachable P T (snd iface) r'
                                             else r')
                                    (index_At r1 iface) r1)
                     else bindE (findAllImplementationsInProgram P iface r1) (\<lambda>(Ts, r2).
                            Inr (fold (\<lambda>T. markInterfaceMethodsReachable P T (snd iface)) Ts r2))))"
  have ti: "marks P UNIV rt r r'" if "toInterface = Inr r'"
  proof (cases "asInterfacePtr (Underlying P AT)")
    case None
    with that show ?thesis by (simp add: toInterface_def marks_refl)
  next
    case (Some iface)
    show ?thesis
    proof (cases "length (snd iface) = 0")
      case True
      with that Some show ?thesis by (simp add: toInterface_def marks_refl)
    next
      case False
      with that Some obtain r1 where b: "buildUserTypesIndex P r = Inr r1"
        and c: "(if isStdlibFunction P (currentFunction r1)
                     then Inr (fold (\<lambda>T r'. if tm_At (RuntimeTypes (result r')) T \<noteq> None
                                             then markInterfaceMethodsReachable P T (snd iface) r'
                                             else r')
                                    (index_At r1 iface) r1)
                     else bindE (findAllImplementationsInProgram P iface r1) (\<lambda>(Ts, r2).
                            Inr (fold (\<lambda>T. markInterfaceMethodsReachable P T (snd iface)) Ts r2))) = Inr r'"
        by (auto simp add: toInterface_def bindE_Inr_iff)
      have m1: "marks P UNIV rt r r1"
        using keeps_buildUserTypesIndex [OF b] by (rule keeps_marks)
      have m2: "marks P UNIV rt r1 r'"
      proof (cases "isStdlibFunction P (currentFunction r1)")
        case True
        with c have "r' = fold (\<lambda>T r'. if tm_At (RuntimeTypes (result r')) T \<noteq> None
                                             then markInterfaceMethodsReachable P T (snd iface) r'
                                             else r') (index_At r1 iface) r1"
          by simp
        then show ?thesis
          by (auto intro!: marks_fold marks_markInterfaceMethodsReachable marks_refl)
      next
        case False
        with c obtain Ts r2 where f: "findAllImplementationsInProgram P iface r1 = Inr (Ts, r2)"
          and r': "r' = fold (\<lambda>T. markInterfaceMethodsReachable P T (snd iface)) Ts r2"
          by (auto simp add: bindE_Inr_iff)
        have "marks P UNIV rt r1 r2"
          using keeps_findAllImplementationsInProgram [OF f] by (rule keeps_marks)
        then show ?thesis
          unfolding r' by (rule marks_then_fold [OF marks_markInterfaceMethodsReachable])
      qed
      show ?thesis by (rule marks_trans [OF m2 m1])
    qed
  qed
  from a have "toInterface = Inr r' \<or> (\<exists>si. r' = markInterfaceMethodsReachable P AT si r)"
    unfolding handleTypeAssert_def Let_def toInterface_def [symmetric]
    by (auto split: option.splits if_splits)
  then show ?thesis
    using ti by (auto intro: marks_markInterfaceMethodsReachable)
qed

lemma marks_handleChangeInterface:
  "handleChangeInterface P T r = Inr r' \<Longrightarrow> marks P UNIV rt r r'"
proof -
  assume a: "handleChangeInterface P T r = Inr r'"
  then have "r' = r \<or> (\<exists>ta ti Ts r1. findAllImplementationsInProgram P (ta, ti) r = Inr (Ts, r1)
        \<and> r' = fold (\<lambda>T. markInterfaceMethodsReachable P T ti) Ts r1)"
    by (fastforce simp add: handleChangeInterface_def bindE_Inr_iff
        split: option.splits if_splits)
  then show ?thesis
  proof (elim disjE exE conjE)
    assume "r' = r" then show ?thesis by (simp add: marks_refl)
  next
    fix ta ti Ts r1
    assume f: "findAllImplementationsInProgram P (ta, ti) r = Inr (Ts, r1)"
      and r': "r' = fold (\<lambda>T. markInterfaceMethodsReachable P T ti) Ts r1"
    have "marks P UNIV rt r r1"
      using keeps_findAllImplementationsInProgram [OF f] by (rule keeps_marks)
    then show ?thesis
      unfolding r' by (rule marks_then_fold [OF marks_markInterfaceMethodsReachable])
  qed
qed

lemma marks_markKnownSafeMethods: "marks P UNIV rt r (markKnownSafeMethods P mset r)"
  unfolding markKnownSafeMethods_def
  by (auto split: option.splits intro!: marks_fold marks_intros)

lemma marks_markExportedMethods: "marks P UNIV rt r (markExportedMethods P mset r)"
  unfolding markExportedMethods_def Let_def
  by (rule marks_fold) (auto intro!: marks_intros)

text \<open>The two type switches of \<open>addRuntimeType\<close> mark when the recursive call does.\<close>

lemma marks_addRuntimeTypeStructure_with:
  assumes rec: "\<And>T s r r'. rec T s r = Inr r' \<Longrightarrow> marks P UNIV True r r'"
  shows "addRuntimeTypeStructure_with rec P T r = Inr r' \<Longrightarrow> marks P UNIV True r r'"
  unfolding addRuntimeTypeStructure_with_def
  by (cases T)
     (auto simp add: bindE_Inr_iff intro: rec marks_refl marks_trans [OF rec rec]
        elim!: marks_foldE [rotated])

lemma marks_addRuntimeTypeRecurse:
  assumes rec: "\<And>T s r r'. rec T s r = Inr r' \<Longrightarrow> marks P UNIV True r r'"
  shows "addRuntimeTypeRecurse rec P T skip r = Inr r' \<Longrightarrow> marks P UNIV True r r'"
proof (cases T)
  case (Named n)
  assume "addRuntimeTypeRecurse rec P T skip r = Inr r'"
  with Named obtain x xa where 1: "rec (Pointer (Named n)) skip r = Inr x"
    and 2: "rec (prog_Underlying P n) True x = Inr xa"
    and 3: "foldE (\<lambda>m. rec (func_Type m) skip) (prog_Methods P n) xa = Inr r'"
    by (auto simp add: addRuntimeTypeRecurse_def bindE_Inr_iff)
  have "marks P UNIV True xa r'"
    using 3 by (rule marks_foldE [rotated]) (rule rec)
  then show ?thesis
    by (rule marks_trans [OF _ marks_trans [OF rec [OF 2] rec [OF 1]]])
qed (auto simp add: addRuntimeTypeRecurse_def bindE_Inr_iff
       intro: rec marks_refl marks_trans [OF rec rec] elim!: marks_foldE [rotated])

lemma marks_set_RuntimeTypes: "marks P A True r (set_RuntimeTypes m r)"
  by (rule marks_step) (simp_all add: obj_le_def)

lemma marks_addRuntimeType:
  "addRuntimeType n P T skip r = Inr r' \<Longrightarrow> marks P UNIV True r r'"
proof (induction n arbitrary: T skip r r')
  case 0
  then show ?case by simp
next
  case (Suc n)
  note rec = Suc.IH
  show ?case
  proof (cases "tm_At (RuntimeTypes (result r)) T")
    case (Some prev)
    with Suc.prems have "r' = r \<or> r' = set_RuntimeTypes (tm_Set (RuntimeTypes (result r)) T skip) r"
      by (auto split: if_splits)
    then show ?thesis
      by (auto intro: marks_refl marks_set_RuntimeTypes)
  next
    case None
    define r1 where "r1 = set_RuntimeTypes (tm_Set (RuntimeTypes (result r)) T skip) r"
    define inv where "inv = (\<lambda>r3. if \<not> skip \<and> \<not> isInterface (Underlying P T)
                      then addInvokeEdgesOfType P T r3 else Inr r3)"
    define safe where "safe = (\<lambda>r4. \<not> skip \<and> currentFunction r4 \<noteq> None \<and> isInKnownSafeContext P r4)"
    define mk where "mk = (\<lambda>r4. if \<not> (if safe r4 then True else skip)
                  then markExportedMethods P (MethodSet P T)
                         (if safe r4 then markKnownSafeMethods P (MethodSet P T) r4 else r4)
                  else (if safe r4 then markKnownSafeMethods P (MethodSet P T) r4 else r4))"
    have eq: "addRuntimeType (Suc n) P T skip r =
       bindE (addTypeToIndex P T r1) (\<lambda>r2.
       bindE (addRuntimeTypeStructure_with (addRuntimeType n P) P T r2) (\<lambda>r3.
       bindE (inv r3) (\<lambda>r4.
         addRuntimeTypeRecurse (addRuntimeType n P) P T (if safe r4 then True else skip) (mk r4))))"
      unfolding addRuntimeType.simps Let_def None option.case r1_def inv_def safe_def mk_def
      by (rule refl)
    from Suc.prems obtain r2 r3 r4 where
      2: "addTypeToIndex P T r1 = Inr r2"
      and 3: "addRuntimeTypeStructure_with (addRuntimeType n P) P T r2 = Inr r3"
      and 4: "inv r3 = Inr r4"
      and 5: "addRuntimeTypeRecurse (addRuntimeType n P) P T (if safe r4 then True else skip) (mk r4) = Inr r'"
      unfolding eq by (auto simp add: bindE_Inr_iff)
    have m1: "marks P UNIV True r r1"
      by (simp add: r1_def marks_set_RuntimeTypes)
    have m2: "marks P UNIV True r1 r2"
      using keeps_addTypeToIndex [OF 2] by (rule keeps_marks)
    have m3: "marks P UNIV True r2 r3"
      using 3 by (rule marks_addRuntimeTypeStructure_with [rotated]) (rule rec)
    have m4: "marks P UNIV True r3 r4"
      using 4 by (auto simp add: inv_def split: if_splits intro: marks_addInvokeEdgesOfType marks_refl)
    have m5: "marks P UNIV True r4 (mk r4)"
      by (auto simp add: mk_def intro!: marks_refl marks_trans [OF marks_markExportedMethods]
          marks_markKnownSafeMethods)
    have m6: "marks P UNIV True (mk r4) r'"
      using 5 by (rule marks_addRuntimeTypeRecurse [rotated]) (rule rec)
    show ?thesis
      by (rule marks_trans [OF m6 marks_trans [OF m5 marks_trans [OF m4
            marks_trans [OF m3 marks_trans [OF m2 m1]]]]])
  qed
qed

lemma marks_addRuntimeTypeStructure:
  "addRuntimeTypeStructure n P T r = Inr r' \<Longrightarrow> marks P UNIV True r r'"
  unfolding addRuntimeTypeStructure_def
  by (erule marks_addRuntimeTypeStructure_with [rotated]) (rule marks_addRuntimeType)

lemma marks_addRuntimeTypeForInterface:
  "addRuntimeTypeForInterface n P T iface skip r = Inr r' \<Longrightarrow> marks P UNIV True r r'"
proof -
  assume a: "addRuntimeTypeForInterface n P T iface skip r = Inr r'"
  define U where "U = Unalias T"
  define already where "already = (tm_At (RuntimeTypes (result r)) U \<noteq> None)"
  define r1 where "r1 = (if \<not> already
                then set_RuntimeTypes (tm_Set (RuntimeTypes (result r)) U skip) r else r)"
  define mk where "mk = (if \<not> isInterface (Underlying P U)
                then (case iface of
                        None \<Rightarrow> Inl NilPointerDereference
                      | Some ms \<Rightarrow>
                          if \<not> already then addInvokeEdgesOfType P U (markMethodsIn P (MethodSet P U) ms r1)
                             else Inr (markMethodsIn P (MethodSet P U) ms r1))
                else Inr r1)"
  define st where "st = (\<lambda>r3. if \<not> already then addRuntimeTypeStructure n P U r3 else Inr r3)"
  have eq: "addRuntimeTypeForInterface n P T iface skip r = bindE mk st"
    unfolding addRuntimeTypeForInterface_def Let_def mk_def st_def r1_def already_def U_def
    by (rule refl)
  from a obtain r3 where 1: "mk = Inr r3" and 2: "st r3 = Inr r'"
    unfolding eq by (auto simp add: bindE_Inr_iff)
  have m1: "marks P UNIV True r r1"
    by (auto simp add: r1_def intro: marks_refl marks_set_RuntimeTypes)
  have m2: "marks P UNIV True r1 r3"
    using 1 unfolding mk_def
    by (auto split: if_splits option.splits
        intro: marks_refl marks_markMethodsIn
          marks_trans [OF marks_addInvokeEdgesOfType marks_markMethodsIn])
  have m3: "marks P UNIV True r3 r'"
    using 2 unfolding st_def
    by (auto split: if_splits intro: marks_refl marks_addRuntimeTypeStructure)
  show ?thesis
    by (rule marks_trans [OF m3 marks_trans [OF m2 m1]])
qed

lemma markSelectiveMethods_step:
  "(let m = sel_Obj sel
              in if Exported (m_Name m)
                 then bindE (shouldMarkMethodForReflection P r m) (\<lambda>b.
                        Inr (if b then markSelection P sel r else r))
                 else Inr r) = Inr r'
   \<Longrightarrow> r' = r \<or> (r' = markSelection P sel r \<and> Exported (m_Name (sel_Obj sel))
                    \<and> shouldMarkMethodForReflection P r (sel_Obj sel) = Inr True)"
  by (auto simp add: Let_def bindE_Inr_iff split: if_splits)

lemma marks_markSelectiveMethods:
  "markSelectiveMethods P mset r = Inr r' \<Longrightarrow> marks P UNIV rt r r'"
  unfolding markSelectiveMethods_def
  by (erule marks_foldE [rotated])
     (auto dest!: markSelectiveMethods_step intro: marks_refl marks_markSelection)

lemma marks_addRuntimeTypeSelective:
  "addRuntimeTypeSelective P T skip r = Inr r' \<Longrightarrow> marks P UNIV True r r'"
  unfolding addRuntimeTypeSelective_def Let_def
  by (auto simp add: bindE_Inr_iff split: if_splits
      intro: marks_refl marks_set_RuntimeTypes
        marks_trans [OF marks_addInvokeEdgesOfType
                        marks_trans [OF marks_markSelectiveMethods marks_set_RuntimeTypes]])

lemma marks_markImplementor:
  "markImplementor n P ti nm r = Inr r' \<Longrightarrow> marks P UNIV True r r'"
  unfolding markImplementor_def
  by (auto split: member.splits if_splits
      intro: marks_refl marks_markMethodsIn marks_addRuntimeType)

lemma marks_markImplementorsMethodsReachable:
  "markImplementorsMethodsReachable n P ti r = Inr r' \<Longrightarrow> marks P UNIV True r r'"
  unfolding markImplementorsMethodsReachable_def
  by (erule marks_foldE [rotated])
     (auto split: option.splits if_splits intro: marks_refl
        elim!: marks_foldE [rotated] marks_markImplementor)

lemma marks_handleMakeInterface:
  "handleMakeInterface n P XT T r = Inr r' \<Longrightarrow> marks P UNIV True r r'"
  unfolding handleMakeInterface_def Let_def
  by (auto split: if_splits option.splits
      intro: marks_markImplementorsMethodsReachable marks_addRuntimeTypeSelective
        marks_addRuntimeType marks_addRuntimeTypeForInterface)

lemma marks_visitOperands: "marks P UNIV rt r (visitOperands P rands r)"
  unfolding visitOperands_def
  by (rule marks_fold) (auto split: option.splits Value.splits
      intro: marks_refl marks_visitAddrTakenFunc)

lemma marks_visitInstr: "visitInstr n P f instr r = Inr r' \<Longrightarrow> marks P UNIV True r r'"
proof (cases instr)
  case (Call call)
  assume "visitInstr n P f instr r = Inr r'"
  with Call obtain r1 where
    1: "(if IsInvoke call then visitInvoke P call r
                    else (case StaticCallee call of
                            Some g \<Rightarrow>
                              Inr (checkSetFinalizer P call
                                     (addEdge P (Some f) (Some call) (Some g) False r))
                          | None \<Rightarrow>
                              if call_Value call = Some BuiltinV then Inr r
                              else visitDynCall P call r)) = Inr r1"
    and 2: "r' = visitOperands P (tl (Operands instr)) r1"
    by (auto simp add: visitInstr_def Let_def bindE_Inr_iff)
  have "marks P UNIV True r r1"
    using 1
    by (auto split: if_splits option.splits
        intro: marks_visitInvoke marks_visitDynCall marks_refl
          marks_then_checkSetFinalizer marks_then_addEdge)
  then show ?thesis
    unfolding 2 by (rule marks_trans [OF marks_visitOperands])
next
  case (MakeInterface X XT T)
  assume "visitInstr n P f instr r = Inr r'"
  with MakeInterface show ?thesis
    by (auto simp add: visitInstr_def Let_def bindE_Inr_iff
        intro: marks_trans [OF marks_visitOperands marks_handleMakeInterface])
next
  case (TypeAssert X XT T)
  assume "visitInstr n P f instr r = Inr r'"
  with TypeAssert show ?thesis
    by (auto simp add: visitInstr_def Let_def bindE_Inr_iff
        intro: marks_trans [OF marks_visitOperands marks_handleTypeAssert])
next
  case (ChangeInterface X T)
  assume "visitInstr n P f instr r = Inr r'"
  with ChangeInterface show ?thesis
    by (auto simp add: visitInstr_def Let_def bindE_Inr_iff
        intro: marks_trans [OF marks_visitOperands marks_handleChangeInterface])
next
  case (OtherInstr ops)
  assume "visitInstr n P f instr r = Inr r'"
  with OtherInstr show ?thesis
    by (auto simp add: visitInstr_def Let_def intro: marks_visitOperands)
qed

lemma marks_visitFunc: "visitFunc n P f r = Inr r' \<Longrightarrow> marks P UNIV True r r'"
proof -
  assume "visitFunc n P f r = Inr r'"
  then obtain r1 where 1: "foldE (visitInstr n P f) (concat (f_Blocks (prog_Function P f)))
                  (r\<lparr>currentFunction := Some f\<rparr>) = Inr r1"
    and 2: "r' = r1\<lparr>currentFunction := None\<rparr>"
    by (auto simp add: visitFunc_def bindE_Inr_iff)
  have "marks P UNIV True (r\<lparr>currentFunction := Some f\<rparr>) r1"
    using 1 by (rule marks_foldE [rotated]) (rule marks_visitInstr)
  then have "marks P UNIV True r r1"
    by (rule marks_trans) (intro marks_intros)
  then show ?thesis
    unfolding 2 by (intro marks_intros)
qed

lemma marks_worklist:
  "marks P A rt r r' \<Longrightarrow>
   \<exists>new. worklist r' = worklist r @ new \<and> distinct new
        \<and> set new \<inter> dom (Reachable (result r)) = {} \<and> set new \<subseteq> A
        \<and> dom (Reachable (result r')) =
            dom (Reachable (result r)) \<union> set new \<union> templates_of P (set new)"
proof (induction rule: marks.induct)
  case (marks_refl r)
  show ?case by (simp add: templates_of_def)
next
  case (marks_frame r r1 r2)
  then show ?case by simp
next
  case (marks_reach r r1 f a)
  then obtain new where new: "worklist r1 = worklist r @ new" "distinct new"
      "set new \<inter> dom (Reachable (result r)) = {}" "set new \<subseteq> A"
      "dom (Reachable (result r1)) =
            dom (Reachable (result r)) \<union> set new \<union> templates_of P (set new)"
    by blast
  show ?case
  proof (cases "Reachable (result r1) f")
    case (Some b)
    then have "dom (Reachable (result (addReachable P (Some f) a r1))) = dom (Reachable (result r1))"
      by (auto simp add: addReachable_old)
    moreover have "worklist (addReachable P (Some f) a r1) = worklist r1"
      using Some by (simp add: addReachable_old)
    ultimately show ?thesis
      using new by auto
  next
    case None
    have wl: "worklist (addReachable P (Some f) a r1) = worklist r @ (new @ [f])"
      using None new(1) by (simp add: addReachable_new)
    have d: "dom (Reachable (result (addReachable P (Some f) a r1))) =
        dom (Reachable (result r1)) \<union> {f} \<union> templates_of P {f}"
      using None
      by (auto simp add: addReachable_new markGenericTemplateReachable_def templates_of_def
          split: option.splits if_splits)
    have fnew: "f \<notin> set new" "f \<notin> dom (Reachable (result r))"
      using None new(5) by auto
    have t: "templates_of P (set (new @ [f])) = templates_of P (set new) \<union> templates_of P {f}"
      by (auto simp add: templates_of_def)
    show ?thesis
      apply (rule exI [of _ "new @ [f]"])
      using wl d fnew new marks_reach.hyps(2) t
      apply auto
      done
  qed
qed

lemma Analyze_scan_refines:
  "state_in (Analyze_scan k n P r scanned) = Analyze_loop k n P r"
proof (induction k arbitrary: r scanned)
  case 0
  show ?case by (simp add: state_in_def)
next
  case (Suc k)
  show ?case
  proof (cases "foldE (visitFunc n P) (worklist r) (r\<lparr>worklist := []\<rparr>)")
    case (Inl e)
    then show ?thesis by (simp add: state_in_def Let_def)
  next
    case (Inr r')
    then show ?thesis using Suc.IH [of r' "scanned @ worklist r"]
      by (simp add: state_in_def Let_def)
  qed
qed

text \<open>The invariant of the loop.\<close>

lemma scan_round:
  assumes inv: "distinct (scanned @ worklist r)"
      "dom (Reachable (result r)) = set (scanned @ worklist r) \<union> templates_of P (set (scanned @ worklist r))"
    and run: "foldE (visitFunc n P) (worklist r) (r\<lparr>worklist := []\<rparr>) = Inr r'"
  shows "distinct ((scanned @ worklist r) @ worklist r')
     \<and> dom (Reachable (result r')) = set ((scanned @ worklist r) @ worklist r')
           \<union> templates_of P (set ((scanned @ worklist r) @ worklist r'))"
proof -
  have "marks P UNIV True (r\<lparr>worklist := []\<rparr>) r'"
    using run by (rule marks_foldE [rotated]) (rule marks_visitFunc)
  from marks_worklist [OF this] obtain new where new: "worklist r' = new" "distinct new"
      "set new \<inter> dom (Reachable (result r)) = {}"
      "dom (Reachable (result r')) =
            dom (Reachable (result r)) \<union> set new \<union> templates_of P (set new)"
    by auto
  have t: "templates_of P (X \<union> Y) = templates_of P X \<union> templates_of P Y" for X Y
    by (auto simp add: templates_of_def)
  show ?thesis
    using new inv by (auto simp add: t)
qed

lemma Analyze_scan_inv:
  "Analyze_scan k n P r scanned = Inr (r', scanned') \<Longrightarrow>
   distinct (scanned @ worklist r) \<Longrightarrow>
   dom (Reachable (result r)) = set (scanned @ worklist r) \<union> templates_of P (set (scanned @ worklist r)) \<Longrightarrow>
   distinct scanned' \<and> worklist r' = []
   \<and> dom (Reachable (result r')) = set scanned' \<union> templates_of P (set scanned')"
proof (induction k arbitrary: r scanned)
  case 0
  then show ?case by (auto split: if_splits)
next
  case (Suc k)
  show ?case
  proof (cases "worklist r = []")
    case True
    with Suc.prems show ?thesis by auto
  next
    case False
    with Suc.prems(1) obtain r1 where
      1: "foldE (visitFunc n P) (worklist r) (r\<lparr>worklist := []\<rparr>) = Inr r1"
      and 2: "Analyze_scan k n P r1 (scanned @ worklist r) = Inr (r', scanned')"
      by (auto simp add: Let_def bindE_Inr_iff)
    from scan_round [OF Suc.prems(2,3) 1] show ?thesis
      by (intro Suc.IH [OF 2]) simp_all
  qed
qed

lemma Analyze_init_inv:
  "Analyze_init P roots = Inr r0 \<Longrightarrow>
   distinct (worklist r0)
   \<and> dom (Reachable (result r0)) = set (worklist r0) \<union> templates_of P (set (worklist r0))"
proof -
  assume "Analyze_init P roots = Inr r0"
  then obtain rvc where r0: "r0 = fold (\<lambda>root. addReachable P root False) roots (initial_rta rvc)"
    by (auto simp add: Analyze_init_def bindE_Inr_iff split: list.splits option.splits)
  have "marks P UNIV True (initial_rta rvc) r0"
    unfolding r0 by (rule marks_fold) (rule marks_then_addReachable [OF marks_refl])
  from marks_worklist [OF this] show ?thesis
    by (auto simp add: initial_rta_def)
qed

section \<open>Evaluation and growth of the result\<close>

lemmas eval_defs =
  Analyze_trace_def Analyze_init_def lookupReflectValueCall_def ImportedPackage_def
  initial_rta_def addReachable_def markGenericTemplateReachable_def set_Reachable_def
  set_ReachableObjects_def set_RuntimeTypes_def Let_def
  visitFunc_def visitInstr_def Operands_def visitOperands_def IsInvoke_def StaticCallee_def
  checkSetFinalizer_def addEdge_def visitAddrTakenFunc_def at_list_def
  returns_def scanned_in_def state_in_def reachable_in_def
  emptyProgram_def emptyFunction_def staticCall_def eval_nat_numeral

lemma grows_markGenericTemplateReachable: "grows r (markGenericTemplateReachable P f r)"
  by (auto simp add: grows_def markGenericTemplateReachable_def split: option.splits)

lemma grows_Analyze_loop: "Analyze_loop k n P r = Inr r' \<Longrightarrow> grows r r'"
proof (induction k arbitrary: r)
  case 0
  then show ?case by (auto split: if_splits)
next
  case (Suc k)
  show ?case
  proof (cases "worklist r = []")
    case True
    with Suc.prems show ?thesis by auto
  next
    case False
    with Suc.prems obtain r1 where
      1: "foldE (visitFunc n P) (worklist r) (r\<lparr>worklist := []\<rparr>) = Inr r1"
      and 2: "Analyze_loop k n P r1 = Inr r'"
      by (auto simp add: Let_def bindE_Inr_iff)
    have "marks P UNIV True (r\<lparr>worklist := []\<rparr>) r1"
      using 1 by (rule marks_foldE [rotated]) (rule marks_visitFunc)
    then have "grows (r\<lparr>worklist := []\<rparr>) r1"
      by (rule marks_grows)
    then have "grows r r1"
      by (simp add: grows_def)
    then show ?thesis
      using Suc.IH [OF 2] by (rule grows_trans)
  qed
qed

lemma spec_calleeIsSetFinalizer_StaticCallee:
  "spec_calleeIsSetFinalizer P call \<Longrightarrow> \<exists>g. StaticCallee call = Some g"
  by (auto simp add: spec_calleeIsSetFinalizer_def StaticCallee_def
      split: option.splits Value.splits)

lemma visitInstr_static:
  "\<not> IsInvoke call \<Longrightarrow> StaticCallee call = Some g \<Longrightarrow>
   visitInstr n P f (Call call) r =
     Inr (visitOperands P (map Some (call_Args call))
            (checkSetFinalizer P call (addReachable P (Some g) False r)))"
  by (simp add: visitInstr_def Operands_def addEdge_def)

lemma addInvokeEdge_returns:
  "call_Method site = Some imethod \<Longrightarrow> returns (addInvokeEdge P site C r)"
  by (auto simp add: addInvokeEdge_def Let_def LookupMethod_def returns_def
      split: option.splits)

section \<open>Fingerprints\<close>

lemma bit_Fingerprint_fold:
  "bit (fold (\<lambda>sel mask. mask OR method_bit (sel_Obj sel)) mset acc) i
     \<longleftrightarrow> bit acc i \<or> (\<exists>sel \<in> set mset. bit (method_bit (sel_Obj sel)) i)"
  by (induction mset arbitrary: acc) (auto simp add: bit_or_iff)

lemma bit_Fingerprint:
  "bit (Fingerprint mset) i \<longleftrightarrow> (\<exists>sel \<in> set mset. bit (method_bit (sel_Obj sel)) i)"
  by (simp add: Fingerprint_def bit_Fingerprint_fold)

lemma Identical_func_Type_lengths:
  "Identical (func_Type m1) (func_Type m2) \<Longrightarrow>
   length (m_Params m1) = length (m_Params m2) \<and> length (m_Results m1) = length (m_Results m2)"
  by (auto simp add: Identical_def func_Type_def dest: map_eq_imp_length_eq)

lemma method_bit_cong:
  "func_Id m1 = func_Id m2 \<Longrightarrow> Identical (func_Type m1) (func_Type m2) \<Longrightarrow>
   method_bit m1 = method_bit m2"
  by (simp add: method_bit_def method_key_def Identical_func_Type_lengths)

lemma MethodSet_Interface:
  "MethodSet P (Interface a I) = map (\<lambda>m. \<lparr>sel_Recv = Interface a I, sel_Obj = m\<rparr>) I"
  by (simp add: MethodSet_def)

lemma Fingerprint_subset:
  assumes "Implements P C I"
  shows "Fingerprint (MethodSet P (Interface a I)) AND NOT (Fingerprint (MethodSet P C)) = 0"
proof (rule bit_eqI)
  fix i
  have "\<not> bit (Fingerprint (MethodSet P (Interface a I)) AND NOT (Fingerprint (MethodSet P C))) i"
  proof
    assume "bit (Fingerprint (MethodSet P (Interface a I)) AND NOT (Fingerprint (MethodSet P C))) i"
    then have a: "bit (Fingerprint (MethodSet P (Interface a I))) i"
      and b: "\<not> bit (Fingerprint (MethodSet P C)) i"
      by (auto simp add: bit_and_iff bit_not_iff)
    from a obtain m where m: "m \<in> set I" "bit (method_bit m) i"
      by (auto simp add: bit_Fingerprint MethodSet_Interface)
    from assms m(1) obtain sel where sel: "sel \<in> set (MethodSet P C)"
        "func_Id (sel_Obj sel) = func_Id m" "Identical (func_Type (sel_Obj sel)) (func_Type m)"
      by (auto simp add: Implements_def list_all_iff list_ex_iff)
    then have "method_bit (sel_Obj sel) = method_bit m"
      by (intro method_bit_cong)
    with m(2) sel(1) have "bit (Fingerprint (MethodSet P C)) i"
      unfolding bit_Fingerprint by (intro bexI [of _ sel]) simp_all
    with b show False by contradiction
  qed
  then show "bit (Fingerprint (MethodSet P (Interface a I)) AND NOT (Fingerprint (MethodSet P C))) i
     = bit (0 :: 64 word) i"
    by simp
qed

lemmas eval_rt_defs =
  handleMakeInterface_def markImplementorsMethodsReachable_def markImplementor_def
  addRuntimeTypeStructure_with_def addRuntimeTypeRecurse_def addRuntimeTypeStructure_def
  addRuntimeTypeSelective_def addRuntimeTypeForInterface_def
  markKnownSafeMethods_def markExportedMethods_def markSelectiveMethods_def markMethodsIn_def
  markSelection_def addReachableObject_def addTypeToIndex_def addInvokeEdgesOfType_def
  interfaces_def getConcreteTypeInfo_def getInterfaceTypeInfo_def implementations_def
  isInKnownSafeContext_def shouldMarkMethodForReflection_def staticCallees_def
  commonReflectionMethods_def
  asInterface_def isInterface_def isPointer_def MethodSet_def Implements_def Lookup_def
  func_Id_def func_Type_def Id_def Exported_ascii Identical_def runtime_type_in_def
  asInterfacePtr_def iface_Type_def

lemmas marker_defs = markerProgram_def A_msets_def E_Error_def E_mark_def A_Error_def
  A_mark_def appPath_def

section \<open>Runtime types\<close>

lemma Identical_refl [simp]: "Identical x x"
  by (simp add: Identical_def)

lemma Identical_sym: "Identical x y \<Longrightarrow> Identical y x"
  by (simp add: Identical_def)

lemma Identical_trans: "Identical x y \<Longrightarrow> Identical y z \<Longrightarrow> Identical x z"
  by (simp add: Identical_def)

lemma tm_At_tm_Set:
  "tm_At (tm_Set m k v) k' = (if Identical k' k then Some v else tm_At m k')"
proof (induction m)
  case Nil
  show ?case by simp
next
  case (Cons e m)
  obtain k1 v1 where e: "e = (k1, v1)" by (cases e)
  show ?case
    using Cons.IH
    by (auto simp add: e Identical_def)
qed

lemma rt_le_refl [simp]: "rt_le r r"
  by (simp add: rt_le_def)

lemma rt_le_trans: "rt_le r1 r2 \<Longrightarrow> rt_le r2 r3 \<Longrightarrow> rt_le r1 r3"
  by (simp add: rt_le_def)

lemma rt_le_eq: "RuntimeTypes (result r') = RuntimeTypes (result r) \<Longrightarrow> rt_le r r'"
  by (simp add: rt_le_def)

lemma rt_le_marks: "marks P A False r r' \<Longrightarrow> rt_le r r'"
  by (rule rt_le_eq) (rule marks_RuntimeTypes)

lemma rt_le_keeps: "keeps r r' \<Longrightarrow> rt_le r r'"
  by (rule rt_le_eq) (simp add: keeps_def)

lemma tm_At_Identical: "Identical k k' \<Longrightarrow> tm_At m k = tm_At m k'"
  by (induction m) (auto simp add: Identical_def)

lemma rt_le_set_new:
  "tm_At (RuntimeTypes (result r)) T = None \<Longrightarrow>
   rt_le r (set_RuntimeTypes (tm_Set (RuntimeTypes (result r)) T v) r)"
proof -
  assume n: "tm_At (RuntimeTypes (result r)) T = None"
  have "tm_At (RuntimeTypes (result r)) k = None" if "Identical k T" for k
    using tm_At_Identical [OF that, of "RuntimeTypes (result r)"] n by simp
  then show ?thesis
    by (auto simp add: rt_le_def tm_At_tm_Set)
qed

lemma rt_le_set_True:
  "rt_le r (set_RuntimeTypes (tm_Set (RuntimeTypes (result r)) T True) r)"
  by (auto simp add: rt_le_def tm_At_tm_Set)

lemma rt_le_foldE:
  "(\<And>x r r'. x \<in> set xs \<Longrightarrow> f x r = Inr r' \<Longrightarrow> rt_le r r')
   \<Longrightarrow> foldE f xs r = Inr r' \<Longrightarrow> rt_le r r'"
  by (rule foldE_rel [where R = rt_le and f = f and xs = xs])
     (auto intro: rt_le_trans)

lemma rt_addsD:
  "rt_adds rec \<Longrightarrow> rec T skip r = Inr r' \<Longrightarrow> rt_le r r'"
  "rt_adds rec \<Longrightarrow> rec T skip r = Inr r' \<Longrightarrow> tm_At (RuntimeTypes (result r')) T \<noteq> None"
  "rt_adds rec \<Longrightarrow> rec T True r = Inr r' \<Longrightarrow> tm_At (RuntimeTypes (result r')) T = Some True"
  unfolding rt_adds_def by blast+

lemma rt_le_True:
  "rt_le r r' \<Longrightarrow> tm_At (RuntimeTypes (result r)) k = Some True
   \<Longrightarrow> tm_At (RuntimeTypes (result r')) k = Some True"
  by (simp add: rt_le_def)

lemma rt_le_present:
  "rt_le r r' \<Longrightarrow> tm_At (RuntimeTypes (result r)) k \<noteq> None
   \<Longrightarrow> tm_At (RuntimeTypes (result r')) k \<noteq> None"
  by (simp add: rt_le_def)

text \<open>A loop of recursive calls adds every type of its list.\<close>

lemma foldE_rec_adds:
  assumes rec: "rt_adds rec"
  shows "foldE (\<lambda>x. rec (g x) skip) xs r = Inr r' \<Longrightarrow>
     rt_le r r' \<and> (\<forall>x\<in>set xs. tm_At (RuntimeTypes (result r')) (g x) \<noteq> None
                      \<and> (skip \<longrightarrow> tm_At (RuntimeTypes (result r')) (g x) = Some True))"
proof (induction xs arbitrary: r)
  case Nil
  then show ?case by simp
next
  case (Cons x xs)
  from Cons.prems obtain r1 where 1: "rec (g x) skip r = Inr r1"
    and 2: "foldE (\<lambda>x. rec (g x) skip) xs r1 = Inr r'"
    by (auto simp add: bindE_Inr_iff)
  from Cons.IH [OF 2] have le: "rt_le r1 r'"
    and rest: "\<forall>x\<in>set xs. tm_At (RuntimeTypes (result r')) (g x) \<noteq> None
                      \<and> (skip \<longrightarrow> tm_At (RuntimeTypes (result r')) (g x) = Some True)"
    by simp_all
  have "tm_At (RuntimeTypes (result r')) (g x) \<noteq> None"
    using rt_le_present [OF le rt_addsD(2) [OF rec 1]] .
  moreover have "skip \<longrightarrow> tm_At (RuntimeTypes (result r')) (g x) = Some True"
    using rt_le_True [OF le] 1 rec by (auto simp add: rt_adds_def)
  moreover have "rt_le r r'"
    using rt_addsD(1) [OF rec 1] le by (rule rt_le_trans)
  ultimately show ?case
    using rest by simp
qed

lemma structure_with_adds:
  assumes rec: "rt_adds rec"
    and run: "addRuntimeTypeStructure_with rec P T r = Inr r'"
  shows "rt_le r r' \<and> (\<forall>c\<in>set (structure_types P T). tm_At (RuntimeTypes (result r')) c = Some True)"
proof -
  have two: "rt_le r r' \<and> tm_At (RuntimeTypes (result r')) a = Some True
        \<and> tm_At (RuntimeTypes (result r')) b = Some True"
    if "bindE (rec a True r) (rec b True) = Inr r'" for a b
  proof -
    from that obtain r1 where 1: "rec a True r = Inr r1" and 2: "rec b True r1 = Inr r'"
      by (auto simp add: bindE_Inr_iff)
    have "tm_At (RuntimeTypes (result r')) a = Some True"
      using rt_le_True [OF rt_addsD(1) [OF rec 2] rt_addsD(3) [OF rec 1]] .
    moreover have "rt_le r r'"
      using rt_addsD(1) [OF rec 1] rt_addsD(1) [OF rec 2] by (rule rt_le_trans)
    ultimately show ?thesis
      using rt_addsD(3) [OF rec 2] by simp
  qed
  have many: "rt_le r r' \<and> (\<forall>x\<in>set xs. tm_At (RuntimeTypes (result r')) (g x) = Some True)"
    if "foldE (\<lambda>x. rec (g x) True) xs r = Inr r'" for g :: "'a \<Rightarrow> ty" and xs
    using foldE_rec_adds [OF rec that] by auto
  show ?thesis
  proof (cases T)
    case (MapT k e)
    with run two [of k e] show ?thesis
      by (simp add: addRuntimeTypeStructure_with_def structure_types_def)
  next
    case (Named n)
    with run two [of "Pointer T" "prog_Underlying P n"] show ?thesis
      by (simp add: addRuntimeTypeStructure_with_def structure_types_def)
  next
    case (Struct fs)
    with run many [of var_Type fs] show ?thesis
      by (simp add: addRuntimeTypeStructure_with_def structure_types_def)
  next
    case (Tuple ts)
    with run many [of "\<lambda>t. t" ts] show ?thesis
      by (simp add: addRuntimeTypeStructure_with_def structure_types_def)
  qed (use run in \<open>auto simp add: addRuntimeTypeStructure_with_def structure_types_def
        dest: rt_addsD(1) [OF rec] rt_addsD(3) [OF rec]\<close>)
qed

lemma recurse_adds:
  assumes rec: "rt_adds rec"
    and run: "addRuntimeTypeRecurse rec P T skip r = Inr r'"
  shows "rt_le r r' \<and> (\<forall>c\<in>set (signature_types P T). tm_At (RuntimeTypes (result r')) c \<noteq> None)"
proof -
  have two: "rt_le r r'"
    if "bindE (rec a s1 r) (rec b s2) = Inr r'" for a b s1 s2
  proof -
    from that obtain r1 where 1: "rec a s1 r = Inr r1" and 2: "rec b s2 r1 = Inr r'"
      by (auto simp add: bindE_Inr_iff)
    show ?thesis
      using rt_addsD(1) [OF rec 1] rt_addsD(1) [OF rec 2] by (rule rt_le_trans)
  qed
  have many: "rt_le r r'"
    if "foldE (\<lambda>x. rec (g x) skip) xs r = Inr r'" for g :: "'a \<Rightarrow> ty" and xs
    using foldE_rec_adds [OF rec that] by auto
  show ?thesis
  proof (cases T)
    case (Signature ps rs)
    with run obtain r1 where 1: "rec (Tuple ps) skip r = Inr r1" and 2: "rec (Tuple rs) skip r1 = Inr r'"
      by (auto simp add: addRuntimeTypeRecurse_def bindE_Inr_iff)
    from rt_addsD(2) [OF rec 1] have "tm_At (RuntimeTypes (result r1)) (Tuple ps) \<noteq> None" .
    then have "tm_At (RuntimeTypes (result r')) (Tuple ps) \<noteq> None"
      by (rule rt_le_present [OF rt_addsD(1) [OF rec 2]])
    moreover from rt_addsD(2) [OF rec 2] have "tm_At (RuntimeTypes (result r')) (Tuple rs) \<noteq> None" .
    moreover have "rt_le r r'"
      using rt_addsD(1) [OF rec 1] rt_addsD(1) [OF rec 2] by (rule rt_le_trans)
    ultimately show ?thesis
      using Signature by (simp add: signature_types_def)
  next
    case (Named n)
    with run obtain r1 r2 where 1: "rec (Pointer (Named n)) skip r = Inr r1"
      and 2: "rec (prog_Underlying P n) True r1 = Inr r2"
      and 3: "foldE (\<lambda>m. rec (func_Type m) skip) (prog_Methods P n) r2 = Inr r'"
      by (auto simp add: addRuntimeTypeRecurse_def bindE_Inr_iff)
    from foldE_rec_adds [OF rec 3] have le: "rt_le r2 r'"
      and all: "\<forall>m\<in>set (prog_Methods P n). tm_At (RuntimeTypes (result r')) (func_Type m) \<noteq> None"
      by auto
    have "rt_le r r'"
      by (rule rt_le_trans [OF rt_addsD(1) [OF rec 1] rt_le_trans [OF rt_addsD(1) [OF rec 2] le]])
    then show ?thesis
      using Named all by (simp add: signature_types_def)
  next
    case (MapT k e)
    with run two [of k skip e skip] show ?thesis
      by (simp add: addRuntimeTypeRecurse_def signature_types_def)
  next
    case (Struct fs)
    with run many [of var_Type fs] show ?thesis
      by (simp add: addRuntimeTypeRecurse_def signature_types_def)
  next
    case (Tuple ts)
    with run many [of "\<lambda>t. t" ts] show ?thesis
      by (simp add: addRuntimeTypeRecurse_def signature_types_def)
  qed (use run in \<open>auto simp add: addRuntimeTypeRecurse_def signature_types_def
        dest: rt_addsD(1) [OF rec]\<close>)
qed

lemma rt_adds_addRuntimeType: "rt_adds (addRuntimeType n P)"
proof (induction n)
  case 0
  show ?case by (simp add: rt_adds_def)
next
  case (Suc n)
  note rec = Suc.IH
  show ?case
    unfolding rt_adds_def
  proof (intro allI impI)
    fix T skip r r'
    assume run: "addRuntimeType (Suc n) P T skip r = Inr r'"
    show "rt_le r r' \<and> tm_At (RuntimeTypes (result r')) T \<noteq> None
        \<and> (skip \<longrightarrow> tm_At (RuntimeTypes (result r')) T = Some True)"
    proof (cases "tm_At (RuntimeTypes (result r)) T")
      case (Some prev)
      show ?thesis
      proof (cases "skip \<and> \<not> prev")
        case True
        with run Some have "r' = set_RuntimeTypes (tm_Set (RuntimeTypes (result r)) T True) r"
          by auto
        then show ?thesis
          using True by (simp add: rt_le_set_True tm_At_tm_Set)
      next
        case False
        with run Some have "r' = r" by auto
        then show ?thesis
          using False Some by auto
      qed
    next
      case None
      define r1 where "r1 = set_RuntimeTypes (tm_Set (RuntimeTypes (result r)) T skip) r"
      define inv where "inv = (\<lambda>r3. if \<not> skip \<and> \<not> isInterface (Underlying P T)
                      then addInvokeEdgesOfType P T r3 else Inr r3)"
      define safe where "safe = (\<lambda>r4. \<not> skip \<and> currentFunction r4 \<noteq> None \<and> isInKnownSafeContext P r4)"
      define mk where "mk = (\<lambda>r4. if \<not> (if safe r4 then True else skip)
                  then markExportedMethods P (MethodSet P T)
                         (if safe r4 then markKnownSafeMethods P (MethodSet P T) r4 else r4)
                  else (if safe r4 then markKnownSafeMethods P (MethodSet P T) r4 else r4))"
      have eq: "addRuntimeType (Suc n) P T skip r =
         bindE (addTypeToIndex P T r1) (\<lambda>r2.
         bindE (addRuntimeTypeStructure_with (addRuntimeType n P) P T r2) (\<lambda>r3.
         bindE (inv r3) (\<lambda>r4.
           addRuntimeTypeRecurse (addRuntimeType n P) P T (if safe r4 then True else skip) (mk r4))))"
        unfolding addRuntimeType.simps Let_def None option.case r1_def inv_def safe_def mk_def
        by (rule refl)
      from run obtain r2 r3 r4 where
        2: "addTypeToIndex P T r1 = Inr r2"
        and 3: "addRuntimeTypeStructure_with (addRuntimeType n P) P T r2 = Inr r3"
        and 4: "inv r3 = Inr r4"
        and 5: "addRuntimeTypeRecurse (addRuntimeType n P) P T (if safe r4 then True else skip) (mk r4) = Inr r'"
        unfolding eq by (auto simp add: bindE_Inr_iff)
      have l1: "rt_le r r1"
        unfolding r1_def using None by (rule rt_le_set_new)
      have a1: "tm_At (RuntimeTypes (result r1)) T = Some skip"
        by (simp add: r1_def tm_At_tm_Set)
      have l2: "rt_le r1 r2"
        using keeps_addTypeToIndex [OF 2] by (rule rt_le_keeps)
      have l3: "rt_le r2 r3"
        using structure_with_adds [OF rec 3] by simp
      have l4: "rt_le r3 r4"
        using 4 by (auto simp add: inv_def split: if_splits
            intro: rt_le_marks [OF marks_addInvokeEdgesOfType])
      have "marks P UNIV False r4 (mk r4)"
        by (auto simp add: mk_def intro!: marks_refl marks_trans [OF marks_markExportedMethods]
          marks_markKnownSafeMethods)
      then have l5: "rt_le r4 (mk r4)"
        by (rule rt_le_marks)
      have l6: "rt_le (mk r4) r'"
        using recurse_adds [OF rec 5] by simp
      have l16: "rt_le r1 r'"
        by (rule rt_le_trans [OF l2 rt_le_trans [OF l3 rt_le_trans [OF l4 rt_le_trans [OF l5 l6]]]])
      have "rt_le r r'"
        by (rule rt_le_trans [OF l1 l16])
      moreover have "tm_At (RuntimeTypes (result r')) T \<noteq> None"
        using rt_le_present [OF l16] a1 by simp
      moreover have "skip \<longrightarrow> tm_At (RuntimeTypes (result r')) T = Some True"
        using rt_le_True [OF l16] a1 by simp
      ultimately show ?thesis by simp
    qed
  qed
qed

text \<open>The stages of \<open>addRuntimeType\<close> on a type that is not yet a runtime type.\<close>

lemma addRuntimeType_new_adds:
  assumes new: "tm_At (RuntimeTypes (result r)) T = None"
    and run: "addRuntimeType n P T skip r = Inr r'"
  shows "(\<forall>c\<in>set (structure_types P T). tm_At (RuntimeTypes (result r')) c = Some True)
       \<and> (\<forall>c\<in>set (signature_types P T). tm_At (RuntimeTypes (result r')) c \<noteq> None)"
proof (cases n)
  case 0
  with run show ?thesis by simp
next
  case (Suc m)
  note rec = rt_adds_addRuntimeType [of m P]
  define r1 where "r1 = set_RuntimeTypes (tm_Set (RuntimeTypes (result r)) T skip) r"
  define inv where "inv = (\<lambda>r3. if \<not> skip \<and> \<not> isInterface (Underlying P T)
                  then addInvokeEdgesOfType P T r3 else Inr r3)"
  define safe where "safe = (\<lambda>r4. \<not> skip \<and> currentFunction r4 \<noteq> None \<and> isInKnownSafeContext P r4)"
  define mk where "mk = (\<lambda>r4. if \<not> (if safe r4 then True else skip)
              then markExportedMethods P (MethodSet P T)
                     (if safe r4 then markKnownSafeMethods P (MethodSet P T) r4 else r4)
              else (if safe r4 then markKnownSafeMethods P (MethodSet P T) r4 else r4))"
  have eq: "addRuntimeType (Suc m) P T skip r =
     bindE (addTypeToIndex P T r1) (\<lambda>r2.
     bindE (addRuntimeTypeStructure_with (addRuntimeType m P) P T r2) (\<lambda>r3.
     bindE (inv r3) (\<lambda>r4.
       addRuntimeTypeRecurse (addRuntimeType m P) P T (if safe r4 then True else skip) (mk r4))))"
    unfolding addRuntimeType.simps Let_def new option.case r1_def inv_def safe_def mk_def
    by (rule refl)
  from run [unfolded Suc eq] obtain r2 r3 r4 where
    3: "addRuntimeTypeStructure_with (addRuntimeType m P) P T r2 = Inr r3"
    and 4: "inv r3 = Inr r4"
    and 5: "addRuntimeTypeRecurse (addRuntimeType m P) P T (if safe r4 then True else skip) (mk r4) = Inr r'"
    by (auto simp add: bindE_Inr_iff)
  have s3: "\<forall>c\<in>set (structure_types P T). tm_At (RuntimeTypes (result r3)) c = Some True"
    using structure_with_adds [OF rec 3] by simp
  have l4: "rt_le r3 r4"
    using 4 by (auto simp add: inv_def split: if_splits
        intro: rt_le_marks [OF marks_addInvokeEdgesOfType])
  have "marks P UNIV False r4 (mk r4)"
    by (auto simp add: mk_def intro!: marks_refl marks_trans [OF marks_markExportedMethods]
      marks_markKnownSafeMethods)
  then have l5: "rt_le r4 (mk r4)"
    by (rule rt_le_marks)
  have l6: "rt_le (mk r4) r'"
    and s6: "\<forall>c\<in>set (signature_types P T). tm_At (RuntimeTypes (result r')) c \<noteq> None"
    using recurse_adds [OF rec 5] by simp_all
  have "rt_le r3 r'"
    by (rule rt_le_trans [OF l4 rt_le_trans [OF l5 l6]])
  with s3 have "\<forall>c\<in>set (structure_types P T). tm_At (RuntimeTypes (result r')) c = Some True"
    by (auto intro: rt_le_True)
  with s6 show ?thesis by simp
qed

lemma addRuntimeTypeForInterface_new_adds:
  assumes new: "tm_At (RuntimeTypes (result r)) (Unalias T) = None"
    and run: "addRuntimeTypeForInterface n P T iface skip r = Inr r'"
  shows "\<forall>c\<in>set (structure_types P (Unalias T)). tm_At (RuntimeTypes (result r')) c = Some True"
proof -
  from run new obtain r3 where "addRuntimeTypeStructure n P (Unalias T) r3 = Inr r'"
    by (auto simp add: addRuntimeTypeForInterface_def Let_def bindE_Inr_iff)
  then show ?thesis
    unfolding addRuntimeTypeStructure_def
    using structure_with_adds [OF rt_adds_addRuntimeType] by blast
qed

lemma addRuntimeTypeSelective_RuntimeTypes:
  assumes run: "addRuntimeTypeSelective P T skip r = Inr r'"
  shows "RuntimeTypes (result r') =
     (if tm_At (RuntimeTypes (result r)) (Unalias T) \<noteq> None then RuntimeTypes (result r)
      else tm_Set (RuntimeTypes (result r)) (Unalias T) skip)"
proof (cases "tm_At (RuntimeTypes (result r)) (Unalias T) \<noteq> None")
  case True
  with run show ?thesis
    by (simp add: addRuntimeTypeSelective_def)
next
  case False
  define r1 where "r1 = set_RuntimeTypes (tm_Set (RuntimeTypes (result r)) (Unalias T) skip) r"
  from run False have "r' = r1 \<or> (\<exists>r2. markSelectiveMethods P (MethodSet P (Unalias T)) r1 = Inr r2
       \<and> addInvokeEdgesOfType P (Unalias T) r2 = Inr r')"
    by (auto simp add: addRuntimeTypeSelective_def Let_def r1_def bindE_Inr_iff split: if_splits)
  then have "RuntimeTypes (result r') = RuntimeTypes (result r1)"
    by (auto dest!: marks_markSelectiveMethods [where rt = False]
        marks_addInvokeEdgesOfType [where rt = False] marks_RuntimeTypes)
  then show ?thesis
    using False by (simp add: r1_def)
qed

section \<open>Selective marking\<close>

lemma Unalias_idem [simp]: "Unalias (Unalias T) = Unalias T"
  by (induction T rule: Unalias.induct) simp_all

lemma shouldMark_selected:
  "currentFunction r = Some cur \<Longrightarrow>
   shouldMarkMethodForReflection P r m = Inr (selected_name P cur (m_Name m))"
  by (simp add: shouldMarkMethodForReflection_def selected_name_def)

lemma markSelection_fields [simp]:
  "currentFunction (markSelection P sel r) = currentFunction r"
  "invokeSites (markSelection P sel r) = invokeSites r"
  "RuntimeTypes (result (markSelection P sel r)) = RuntimeTypes (result r)"
  by (simp_all add: markSelection_def split: option.splits)

lemma marked_markSelection: "marked P sel (markSelection P sel r)"
  by (auto simp add: marked_def markSelection_def Reachable_addReachable_self
      addReachableObject_def split: option.splits)

lemma marked_grows:
  "marked P sel r \<Longrightarrow> grows r r' \<Longrightarrow> obj_le r r' \<Longrightarrow> marked P sel r'"
  by (auto simp add: marked_def grows_def obj_le_def split: option.splits)

lemma marked_marks: "marked P sel r \<Longrightarrow> marks P A rt r r' \<Longrightarrow> marked P sel r'"
  by (blast intro: marked_grows marks_grows marks_obj_le)

text \<open>The loop of \<open>addRuntimeTypeSelective\<close> over a part \<open>ms\<close> of the method set.\<close>

lemma markSelectiveMethods_part:
  assumes cur: "currentFunction r = Some cur"
    and sub: "set ms \<subseteq> set mset"
    and run: "markSelectiveMethods P ms r = Inr r'"
  shows "marks P (selective_targets P cur mset) False r r' \<and> currentFunction r' = Some cur
       \<and> invokeSites r' = invokeSites r
       \<and> (\<forall>sel\<in>set ms. Exported (m_Name (sel_Obj sel)) \<and> selected_name P cur (m_Name (sel_Obj sel))
             \<longrightarrow> marked P sel r')
       \<and> (\<forall>ob. ob \<notin> selective_objects P cur mset
             \<longrightarrow> ReachableObjects (result r') ob = ReachableObjects (result r) ob)"
  using cur sub run
proof (induction ms arbitrary: r)
  case Nil
  then show ?case by (simp add: markSelectiveMethods_def marks_refl)
next
  case (Cons sel ms)
  let ?A = "selective_targets P cur mset"
  let ?sel = "Exported (m_Name (sel_Obj sel)) \<and> selected_name P cur (m_Name (sel_Obj sel))"
  define r1 where "r1 = (if ?sel then markSelection P sel r else r)"
  from Cons.prems(3) have rest: "markSelectiveMethods P ms r1 = Inr r'"
    using Cons.prems(1)
    by (auto simp add: markSelectiveMethods_def Let_def shouldMark_selected r1_def
        split: if_splits)
  have c1: "currentFunction r1 = Some cur" "invokeSites r1 = invokeSites r"
    using Cons.prems(1) by (simp_all add: r1_def)
  have m1: "marks P ?A False r r1"
  proof (cases ?sel)
    case True
    have "marks P ?A False r (markSelection P sel r)"
    proof (rule marks_markSelection)
      fix fn assume "prog_MethodValue P sel = Some fn"
      with True Cons.prems(2) show "fn \<in> ?A"
        by (auto simp add: selective_targets_def)
    qed
    moreover from True have "r1 = markSelection P sel r" unfolding r1_def by (rule if_P)
    ultimately show ?thesis by simp
  next
    case False
    then have "r1 = r" unfolding r1_def by (rule if_not_P)
    then show ?thesis by (simp add: marks_refl)
  qed
  have o1: "ReachableObjects (result r1) ob = ReachableObjects (result r) ob"
    if "ob \<notin> selective_objects P cur mset" for ob
  proof (cases ?sel)
    case True
    then have eq: "r1 = markSelection P sel r" unfolding r1_def by (rule if_P)
    show ?thesis
    proof (cases "prog_MethodValue P sel")
      case None
      with True Cons.prems(2) have "sel_Obj sel \<in> selective_objects P cur mset"
        by (auto simp add: selective_objects_def)
      with that have "ob \<noteq> sel_Obj sel" by auto
      with None show ?thesis
        by (simp add: eq markSelection_def addReachableObject_def)
    next
      case (Some fn)
      then show ?thesis by (simp add: eq markSelection_def)
    qed
  next
    case False
    then have "r1 = r" unfolding r1_def by (rule if_not_P)
    then show ?thesis by simp
  qed
  from Cons.prems(2) have sub': "set ms \<subseteq> set mset" by simp
  from Cons.IH [OF c1(1) sub' rest] have ih: "marks P ?A False r1 r'"
    "currentFunction r' = Some cur" "invokeSites r' = invokeSites r1"
    "\<forall>s\<in>set ms. Exported (m_Name (sel_Obj s)) \<and> selected_name P cur (m_Name (sel_Obj s))
             \<longrightarrow> marked P s r'"
    "\<forall>ob. ob \<notin> selective_objects P cur mset
             \<longrightarrow> ReachableObjects (result r') ob = ReachableObjects (result r1) ob"
    by simp_all
  have "?sel \<longrightarrow> marked P sel r'"
  proof
    assume ?sel
    then have "marked P sel r1" by (simp add: r1_def marked_markSelection)
    then show "marked P sel r'" using ih(1) by (rule marked_marks)
  qed
  moreover have "marks P ?A False r r'"
    by (rule marks_trans [OF ih(1) m1])
  ultimately show ?case
    using ih c1 o1 by simp
qed

lemma tm_At_Some_mem: "tm_At m k = Some v \<Longrightarrow> \<exists>k'. (k', v) \<in> set m"
  by (induction m) (auto split: if_splits)

lemma at_list_all_sites:
  "site \<in> set (at_list (invokeSites r) k) \<Longrightarrow> site \<in> all_sites r"
proof -
  assume a: "site \<in> set (at_list (invokeSites r) k)"
  then obtain ss where s: "tm_At (invokeSites r) k = Some ss" and m: "site \<in> set ss"
    by (cases "tm_At (invokeSites r) k") (auto simp add: at_list_def)
  from tm_At_Some_mem [OF s] obtain k' where "(k', ss) \<in> set (invokeSites r)" ..
  with m show ?thesis
    unfolding all_sites_def by force
qed

lemma addInvokeEdge_target:
  assumes run: "addInvokeEdge P site U r = Inr r'" and site: "site \<in> sites" and U: "Unalias U = U"
  shows "marks P (invoke_targets P sites U) False r r' \<and> invokeSites r' = invokeSites r
       \<and> ReachableObjects (result r') = ReachableObjects (result r)"
proof (cases "r' = r")
  case True
  then show ?thesis by (simp add: marks_refl)
next
  case False
  with addInvokeEdge_cases [OF run] obtain imethod sel
    where m: "call_Method site = Some imethod"
      and l: "Lookup (MethodSet P (Unalias U)) (m_Pkg imethod) (m_Name imethod) = Some sel
         \<or> Lookup (MethodSet P (Pointer (Unalias U))) (m_Pkg imethod) (m_Name imethod) = Some sel"
      and r': "r' = addReachable P (prog_MethodValue P sel) True r"
    by blast
  have "prog_MethodValue P sel = None
      \<or> (\<exists>f. prog_MethodValue P sel = Some f \<and> f \<in> invoke_targets P sites U)"
  proof (cases "prog_MethodValue P sel")
    case None
    then show ?thesis by simp
  next
    case (Some fn)
    have "fn \<in> invoke_targets P sites U"
      unfolding invoke_targets_def
      using site U m l Some by auto
    with Some show ?thesis by simp
  qed
  then have "marks P (invoke_targets P sites U) False r
      (addReachable P (prog_MethodValue P sel) True r)"
    by (rule marks_addReachable)
  then show ?thesis by (simp add: r' addReachable_fields)
qed

lemma addInvokeEdgesOfType_targets:
  assumes run: "addInvokeEdgesOfType P U r = Inr r'" and U: "Unalias U = U"
  shows "marks P (invoke_targets P (all_sites r) U) False r r'
       \<and> ReachableObjects (result r') = ReachableObjects (result r)"
proof -
  let ?A = "invoke_targets P (all_sites r) U"
  let ?R = "\<lambda>s s'. invokeSites s = invokeSites r \<longrightarrow> marks P ?A False s s' \<and> invokeSites s' = invokeSites r
                 \<and> ReachableObjects (result s') = ReachableObjects (result s)"
  from run obtain Is r1 where i: "interfaces P U r = Inr (Is, r1)"
    and f: "foldE (\<lambda>I r'. foldE (\<lambda>site. addInvokeEdge P site U)
                             (at_list (invokeSites r') (iface_Type I)) r') Is r1 = Inr r'"
    by (auto simp add: addInvokeEdgesOfType_def bindE_Inr_iff)
  have k: "keeps r r1" by (rule keeps_interfaces [OF i])
  then have is1: "invokeSites r1 = invokeSites r" by (simp add: keeps_def)
  have inner: "?R s s'"
    if "foldE (\<lambda>site. addInvokeEdge P site U) xs s = Inr s'"
      and "set xs \<subseteq> all_sites r" for xs s s'
    using that(1)
  proof (rule foldE_rel [where R = ?R, rotated -1])
    show "?R s s" for s by (simp add: marks_refl)
    show "?R s1 s3" if "?R s1 s2" "?R s2 s3" for s1 s2 s3
      using that by (auto intro: marks_trans)
    fix x s s'
    assume "x \<in> set xs" "addInvokeEdge P x U s = Inr s'"
    with that(2) addInvokeEdge_target [of P x U s s' "all_sites r"] U
    show "?R s s'" by auto
  qed
  have outer: "?R r1 r'"
    using f
  proof (rule foldE_rel [where R = ?R, rotated -1])
    show "?R s s" for s by (simp add: marks_refl)
    show "?R s1 s3" if "?R s1 s2" "?R s2 s3" for s1 s2 s3
      using that by (auto intro: marks_trans)
    fix I s s'
    assume run1: "foldE (\<lambda>site. addInvokeEdge P site U) (at_list (invokeSites s) (iface_Type I)) s = Inr s'"
    show "?R s s'"
    proof
      assume eq: "invokeSites s = invokeSites r"
      have "set (at_list (invokeSites s) (iface_Type I)) \<subseteq> all_sites r"
        using at_list_all_sites [of _ r "iface_Type I"] by (auto simp add: eq)
      from inner [OF run1 this] eq show "marks P ?A False s s' \<and> invokeSites s' = invokeSites r
          \<and> ReachableObjects (result s') = ReachableObjects (result s)"
        by simp
    qed
  qed
  with is1 have m: "marks P ?A False r1 r'"
    and o: "ReachableObjects (result r') = ReachableObjects (result r1)" by simp_all
  from m have "marks P ?A False r r'"
    by (rule marks_trans) (rule keeps_marks [OF k])
  moreover from o k have "ReachableObjects (result r') = ReachableObjects (result r)"
    by (simp add: keeps_def)
  ultimately show ?thesis ..
qed


lemma addReachable_other:
  assumes "fn \<noteq> f" and "f_Origin (prog_Function P f) \<noteq> Some fn"
  shows "Reachable (result (addReachable P (Some f) a r)) fn = Reachable (result r) fn"
proof (cases "Reachable (result r) f")
  case None
  with assms show ?thesis
    by (simp add: addReachable_new markGenericTemplateReachable_def set_Reachable_def
        split: option.splits)
next
  case (Some b)
  with assms show ?thesis
    by (simp add: addReachable_old set_Reachable_def)
qed

lemma marks_outside:
  "marks P A rt r r' \<Longrightarrow> fn \<notin> A \<Longrightarrow> fn \<notin> templates_of P A \<Longrightarrow>
   Reachable (result r') fn = Reachable (result r) fn"
proof (induction rule: marks.induct)
  case (marks_refl r)
  show ?case by simp
next
  case (marks_reach r r1 f a)
  from marks_reach.prems marks_reach.hyps(2) have "fn \<noteq> f" by auto
  moreover from marks_reach.prems marks_reach.hyps(2) \<open>fn \<noteq> f\<close>
  have "f_Origin (prog_Function P f) \<noteq> Some fn"
    by (auto simp add: templates_of_def)
  ultimately have "Reachable (result (addReachable P (Some f) a r1)) fn = Reachable (result r1) fn"
    by (rule addReachable_other)
  with marks_reach show ?case by simp
next
  case (marks_frame r r1 r2)
  then show ?case by simp
qed

lemma all_sites_cong: "invokeSites r' = invokeSites r \<Longrightarrow> all_sites r' = all_sites r"
  by (simp add: all_sites_def)

lemma addRuntimeTypeSelective_exact:
  assumes cur: "currentFunction r = Some cur"
    and run: "addRuntimeTypeSelective P T skip r = Inr r'"
  shows "marks P (selective_targets P cur (MethodSet P (Unalias T))
                  \<union> invoke_targets P (all_sites r) (Unalias T)) True r r'
       \<and> (\<forall>ob. ob \<notin> selective_objects P cur (MethodSet P (Unalias T))
             \<longrightarrow> ReachableObjects (result r') ob = ReachableObjects (result r) ob)
       \<and> (tm_At (RuntimeTypes (result r)) (Unalias T) = None
            \<and> \<not> isInterface (Underlying P (Unalias T))
           \<longrightarrow> (\<forall>sel\<in>set (MethodSet P (Unalias T)).
                  Exported (m_Name (sel_Obj sel)) \<and> selected_name P cur (m_Name (sel_Obj sel))
                  \<longrightarrow> marked P sel r'))"
proof -
  define U where "U = Unalias T"
  define mset where "mset = MethodSet P U"
  let ?S = "selective_targets P cur mset \<union> invoke_targets P (all_sites r) U"
  define r1 where "r1 = set_RuntimeTypes (tm_Set (RuntimeTypes (result r)) U skip) r"
  have eq: "addRuntimeTypeSelective P T skip r =
      (if tm_At (RuntimeTypes (result r)) U \<noteq> None then Inr r
       else if \<not> isInterface (Underlying P U)
            then bindE (markSelectiveMethods P mset r1) (addInvokeEdgesOfType P U)
            else Inr r1)"
    unfolding addRuntimeTypeSelective_def Let_def U_def mset_def r1_def by (rule refl)
  have m1: "marks P ?S True r r1"
    unfolding r1_def by (rule marks_set_RuntimeTypes)
  have o1: "ReachableObjects (result r1) = ReachableObjects (result r)"
    and c1: "currentFunction r1 = Some cur" and i1: "invokeSites r1 = invokeSites r"
    using cur by (simp_all add: r1_def)
  have goal: "marks P ?S True r r'
       \<and> (\<forall>ob. ob \<notin> selective_objects P cur mset
             \<longrightarrow> ReachableObjects (result r') ob = ReachableObjects (result r) ob)
       \<and> (tm_At (RuntimeTypes (result r)) U = None \<and> \<not> isInterface (Underlying P U)
           \<longrightarrow> (\<forall>sel\<in>set mset.
                  Exported (m_Name (sel_Obj sel)) \<and> selected_name P cur (m_Name (sel_Obj sel))
                  \<longrightarrow> marked P sel r'))"
  proof (cases "tm_At (RuntimeTypes (result r)) U \<noteq> None")
    case True
    with run have "r' = r" by (simp add: eq)
    with True show ?thesis by (auto simp add: marks_refl)
  next
    case new: False
    show ?thesis
    proof (cases "isInterface (Underlying P U)")
      case True
      with run new have "r' = r1" by (simp add: eq)
      with True m1 o1 show ?thesis by simp
    next
      case False
      with run new obtain r2 where a: "markSelectiveMethods P mset r1 = Inr r2"
        and b: "addInvokeEdgesOfType P U r2 = Inr r'"
        by (auto simp add: eq bindE_Inr_iff)
      from markSelectiveMethods_part [OF c1 subset_refl a]
      have a1: "marks P (selective_targets P cur mset) False r1 r2"
        and a2: "invokeSites r2 = invokeSites r1"
        and a3: "\<forall>sel\<in>set mset. Exported (m_Name (sel_Obj sel))
              \<and> selected_name P cur (m_Name (sel_Obj sel)) \<longrightarrow> marked P sel r2"
        and a4: "\<forall>ob. ob \<notin> selective_objects P cur mset
              \<longrightarrow> ReachableObjects (result r2) ob = ReachableObjects (result r1) ob"
        by simp_all
      have "Unalias U = U" by (simp add: U_def)
      from addInvokeEdgesOfType_targets [OF b this]
      have b1: "marks P (invoke_targets P (all_sites r2) U) False r2 r'"
        and b2: "ReachableObjects (result r') = ReachableObjects (result r2)"
        by simp_all
      have sites: "all_sites r2 = all_sites r"
        by (rule all_sites_cong) (simp add: a2 i1)
      have a1': "marks P ?S True r1 r2" by (rule marks_mono [OF a1]) simp_all
      have b1': "marks P ?S True r2 r'"
        by (rule marks_mono [OF b1]) (simp_all add: sites)
      have "marks P ?S True r r'"
        by (rule marks_trans [OF b1' marks_trans [OF a1' m1]])
      moreover have "\<forall>sel\<in>set mset. Exported (m_Name (sel_Obj sel))
              \<and> selected_name P cur (m_Name (sel_Obj sel)) \<longrightarrow> marked P sel r'"
        using a3 marked_marks [OF _ b1] by blast
      ultimately show ?thesis
        using a4 b2 o1 by simp
    qed
  qed
  then show ?thesis unfolding U_def mset_def .
qed

lemma handleMakeInterface_selective:
  assumes "isInKnownSafeContext P r" and "asInterface (Underlying P Type) = Some []"
    and "\<not> pointer_to_interface P T"
  shows "handleMakeInterface n P T Type r = addRuntimeTypeSelective P T False r"
proof (cases T)
  case (Pointer e)
  with assms show ?thesis
    by (cases e) (simp_all add: handleMakeInterface_def pointer_to_interface_def isInterface_def)
qed (use assms in \<open>simp_all add: handleMakeInterface_def\<close>)

section \<open>Generic template inclusion\<close>

text \<open>
  Claim C6. When a function \<open>f\<close> that is not yet reachable is marked, and \<open>f\<close> is an
  instantiation whose origin template \<open>t\<close> is another function, then after
  \<open>addReachable\<close> the function \<open>f\<close> is reachable with the given flag, the template \<open>t\<close>
  is reachable too, with \<open>AddrTaken = False\<close> if it was not reachable before and with its
  old flag otherwise, and the worklist has gained \<open>f\<close> and nothing else: the insertion of
  the template does not touch the worklist.
\<close>

theorem generic_template_inclusion:
  assumes "Reachable (result r) f = None"
    and "f_Origin (prog_Function P f) = Some t" and "t \<noteq> f"
  shows "Reachable (result (addReachable P (Some f) a r)) f = Some a
       \<and> Reachable (result (addReachable P (Some f) a r)) t =
           (case Reachable (result r) t of None \<Rightarrow> Some False | Some b \<Rightarrow> Some b)
       \<and> worklist (addReachable P (Some f) a r) = worklist r @ [f]
       \<and> worklist (markGenericTemplateReachable P f r) = worklist r"
  using assms
  by (auto simp add: addReachable_new markGenericTemplateReachable_def split: option.splits)

theorem generic_template_inclusion_witness:
  "Reachable (result (initial_rta None)) ''inst'' = None
   \<and> f_Origin (prog_Function genericProgram ''inst'') = Some ''tmpl'' \<and> ''tmpl'' \<noteq> ''inst''
   \<and> Reachable (result (addReachable genericProgram (Some ''inst'') True (initial_rta None)))
        ''tmpl'' = Some False
   \<and> worklist (addReachable genericProgram (Some ''inst'') True (initial_rta None)) = [''inst'']"
proof -
  have h1: "Reachable (result (initial_rta None)) ''inst'' = None"
    by (simp add: initial_rta_def)
  have h2: "f_Origin (prog_Function genericProgram ''inst'') = Some ''tmpl''"
    by (simp add: genericProgram_def emptyProgram_def emptyFunction_def)
  have h3: "''tmpl'' \<noteq> ''inst''" by simp
  have w: "worklist (initial_rta None) = []" "Reachable (result (initial_rta None)) ''tmpl'' = None"
    by (simp_all add: initial_rta_def)
  show ?thesis
    using generic_template_inclusion [OF h1 h2 h3, of True] h1 h2 w by simp
qed

section \<open>Monotone growth of the result\<close>

text \<open>
  Claim C10. The result sets only grow. Marking a function, marking an object and
  inserting a generic template never remove a function from \<open>Reachable\<close> or an object from
  \<open>ReachableObjects\<close> and never reset an \<open>AddrTaken\<close> flag that is true; the same holds
  for the scan of a whole function and for the whole fixed-point loop, whatever they
  return.
\<close>

theorem result_sets_grow:
  "grows r (addReachable P fo a r)
   \<and> grows r (addReachableObject obj r)
   \<and> grows r (markGenericTemplateReachable P f r)
   \<and> (visitFunc n P f r = Inr r' \<longrightarrow> grows r r')
   \<and> (Analyze_loop k n P r = Inr r'' \<longrightarrow> grows r r'')"
  by (auto intro: grows_addReachable marks_grows [OF marks_addReachableObject]
      grows_markGenericTemplateReachable marks_grows [OF marks_visitFunc] grows_Analyze_loop)

theorem result_sets_grow_witness:
  "returns (visitFunc 1 finalizerProgram ''main'' s_fin)
   \<and> Reachable (result s_fin) ''cleanup'' = Some True
   \<and> reachable_in (visitFunc 1 finalizerProgram ''main'' s_fin) ''cleanup'' = Some True"
proof -
  have ret: "returns (visitFunc 1 finalizerProgram ''main'' s_fin)"
    by (simp add: eval_defs finalizerProgram_def s_fin_def)
  then obtain r' where r': "visitFunc 1 finalizerProgram ''main'' s_fin = Inr r'"
    by (auto simp add: returns_def split: sum.splits)
  have before: "Reachable (result s_fin) ''cleanup'' = Some True"
    by (simp add: eval_defs finalizerProgram_def s_fin_def)
  have "grows s_fin r'"
    using result_sets_grow [of s_fin finalizerProgram None False None "''main''" 1 r' 0 s_fin] r'
    by simp
  then have "Reachable (result r') ''cleanup'' = Some True"
    using before by (simp add: grows_def)
  then show ?thesis
    using ret before r' by (simp add: reachable_in_def)
qed

section \<open>The worklist\<close>

text \<open>
  Claim C4, as stated, fails: in \<open>genericProgram\<close> the template \<^verbatim>\<open>tmpl\<close> ends in
  \<open>Reachable\<close> and is never enqueued, hence never scanned.
\<close>

theorem worklist_counterexample:
  "reachable_in (state_in (Analyze_trace 3 genericProgram [Some ''main''])) ''tmpl'' = Some False
   \<and> ''tmpl'' \<notin> set (scanned_in (Analyze_trace 3 genericProgram [Some ''main'']))"
  by (simp add: eval_defs genericProgram_def)

text \<open>
  Claim C4, amended. When \<open>Analyze\<close> returns, no function was scanned twice, the worklist
  is empty, and the reachable functions are exactly the scanned functions together with
  the origin templates of scanned instantiations, which \<open>markGenericTemplateReachable\<close>
  inserts without enqueueing them. The record of scans does not change the loop.
  \<open>addReachable\<close> enqueues a function exactly when the function is not yet in
  \<open>Reachable\<close>; on a function that is already there it only ORs the \<open>AddrTaken\<close> flag with
  the previous value and leaves the worklist alone.
\<close>

theorem worklist_enqueues_once:
  "(Analyze_trace n P roots = Inr (r, scanned) \<longrightarrow>
      distinct scanned \<and> worklist r = []
      \<and> dom (Reachable (result r)) = set scanned \<union> templates_of P (set scanned))
   \<and> state_in (Analyze_scan k n P s sc) = Analyze_loop k n P s
   \<and> (Reachable (result s) g = None \<longrightarrow>
        worklist (addReachable P (Some g) a s) = worklist s @ [g])
   \<and> (Reachable (result s) g = Some b \<longrightarrow>
        addReachable P (Some g) a s = set_Reachable ((Reachable (result s))(g \<mapsto> (a \<or> b))) s
        \<and> worklist (addReachable P (Some g) a s) = worklist s)"
proof (intro conjI impI)
  assume "Analyze_trace n P roots = Inr (r, scanned)"
  then obtain r0 where 0: "Analyze_init P roots = Inr r0"
    and 1: "Analyze_scan n n P r0 [] = Inr (r, scanned)"
    by (auto simp add: Analyze_trace_def bindE_Inr_iff)
  from Analyze_init_inv [OF 0] have "distinct ([] @ worklist r0)"
    "dom (Reachable (result r0)) = set ([] @ worklist r0) \<union> templates_of P (set ([] @ worklist r0))"
    by simp_all
  from Analyze_scan_inv [OF 1 this]
  show "distinct scanned" "worklist r = []"
    "dom (Reachable (result r)) = set scanned \<union> templates_of P (set scanned)"
    by simp_all
next
  show "state_in (Analyze_scan k n P s sc) = Analyze_loop k n P s"
    by (rule Analyze_scan_refines)
next
  assume "Reachable (result s) g = None"
  then show "worklist (addReachable P (Some g) a s) = worklist s @ [g]"
    by (simp add: addReachable_new)
next
  assume b: "Reachable (result s) g = Some b"
  then show "addReachable P (Some g) a s = set_Reachable ((Reachable (result s))(g \<mapsto> (a \<or> b))) s"
    by (rule addReachable_old)
  from b show "worklist (addReachable P (Some g) a s) = worklist s"
    by (simp add: addReachable_old)
qed

theorem worklist_enqueues_once_witness:
  "returns (Analyze_trace 3 genericProgram [Some ''main''])
   \<and> distinct (scanned_in (Analyze_trace 3 genericProgram [Some ''main'']))
   \<and> scanned_in (Analyze_trace 3 genericProgram [Some ''main'']) = [''main'', ''inst'']
   \<and> Reachable (result s_gen) ''inst'' = Some True
   \<and> worklist (addReachable genericProgram (Some ''inst'') False s_gen) = worklist s_gen
   \<and> Reachable (result (initial_rta None)) ''inst'' = None
   \<and> worklist (addReachable genericProgram (Some ''inst'') True (initial_rta None)) = [''inst'']"
proof -
  have ret: "returns (Analyze_trace 3 genericProgram [Some ''main''])"
    by (simp add: eval_defs genericProgram_def)
  then obtain r sc where t: "Analyze_trace 3 genericProgram [Some ''main''] = Inr (r, sc)"
    by (auto simp add: returns_def split: sum.splits)
  have sc: "scanned_in (Analyze_trace 3 genericProgram [Some ''main'']) = [''main'', ''inst'']"
    by (simp add: eval_defs genericProgram_def)
  have b1: "Reachable (result s_gen) ''inst'' = Some True"
    by (simp add: eval_defs genericProgram_def s_gen_def)
  have b2: "Reachable (result (initial_rta None)) ''inst'' = None"
    by (simp add: initial_rta_def)
  have w0: "worklist (initial_rta None) = []"
    by (simp add: initial_rta_def)
  note thm1 = worklist_enqueues_once [where n = 3 and P = genericProgram
      and roots = "[Some ''main'']" and r = r and scanned = sc and k = 0 and s = s_gen
      and sc = "[]" and g = "''inst''" and a = False and b = True]
  note thm2 = worklist_enqueues_once [where n = 3 and P = genericProgram
      and roots = "[Some ''main'']" and r = r and scanned = sc and k = 0
      and s = "initial_rta None" and sc = "[]" and g = "''inst''" and a = True and b = True]
  from thm1 t have "distinct sc"
    by simp
  moreover from thm1 b1 have "worklist (addReachable genericProgram (Some ''inst'') False s_gen) = worklist s_gen"
    by simp
  moreover from thm2 b2 w0
  have "worklist (addReachable genericProgram (Some ''inst'') True (initial_rta None)) = [''inst'']"
    by simp
  ultimately show ?thesis
    using ret sc t b1 b2 by (simp add: scanned_in_def)
qed

section \<open>Finalizer inclusion\<close>

text \<open>
  Claim C7. \<open>checkSetFinalizer\<close> acts exactly on the calls that are not invokes, whose
  callee is the function \<^verbatim>\<open>SetFinalizer\<close> of package \<^verbatim>\<open>runtime\<close> and that have at least two
  arguments: it takes the second argument, removes a make-interface wrapper if there is
  one, takes the function itself or the function under a closure, and marks it reachable
  with \<open>AddrTaken = True\<close>; on every other call it leaves the state unchanged. When the
  scan of a static call of that kind finds a function \<open>h\<close> in this way, \<open>h\<close> is reachable
  with \<open>AddrTaken = True\<close> after the scan of the instruction.
\<close>

theorem finalizer_inclusion:
  "checkSetFinalizer P call r =
     (if \<not> IsInvoke call \<and> spec_calleeIsSetFinalizer P call \<and> 2 \<le> length (call_Args call)
      then addReachable P (spec_finalizerFunction (call_Args call ! 1)) True r
      else r)
   \<and> (\<not> IsInvoke call \<and> spec_calleeIsSetFinalizer P call \<and> 2 \<le> length (call_Args call)
       \<and> spec_finalizerFunction (call_Args call ! 1) = Some h
      \<longrightarrow> reachable_in (visitInstr n P f (Call call) r) h = Some True)"
proof (intro conjI impI)
  show "checkSetFinalizer P call r =
     (if \<not> IsInvoke call \<and> spec_calleeIsSetFinalizer P call \<and> 2 \<le> length (call_Args call)
      then addReachable P (spec_finalizerFunction (call_Args call ! 1)) True r
      else r)"
    by (rule checkSetFinalizer_eq)
next
  assume a: "\<not> IsInvoke call \<and> spec_calleeIsSetFinalizer P call \<and> 2 \<le> length (call_Args call)
       \<and> spec_finalizerFunction (call_Args call ! 1) = Some h"
  then obtain g where g: "StaticCallee call = Some g"
    using spec_calleeIsSetFinalizer_StaticCallee by blast
  define r1 where "r1 = addReachable P (Some g) False r"
  define r2 where "r2 = checkSetFinalizer P call r1"
  have v: "visitInstr n P f (Call call) r = Inr (visitOperands P (map Some (call_Args call)) r2)"
    using a g by (simp add: visitInstr_static r1_def r2_def)
  have "r2 = addReachable P (Some h) True r1"
    using a by (simp add: r2_def checkSetFinalizer_eq)
  then have "Reachable (result r2) h = Some True"
    by (simp add: Reachable_addReachable_self)
  moreover have "grows r2 (visitOperands P (map Some (call_Args call)) r2)"
    by (rule marks_grows [OF marks_visitOperands [where rt = True]])
  ultimately have "Reachable (result (visitOperands P (map Some (call_Args call)) r2)) h = Some True"
    by (simp add: grows_def)
  then show "reachable_in (visitInstr n P f (Call call) r) h = Some True"
    by (simp add: v reachable_in_def)
qed

theorem finalizer_inclusion_witness:
  "\<not> IsInvoke finalizerCall \<and> spec_calleeIsSetFinalizer finalizerProgram finalizerCall
   \<and> 2 \<le> length (call_Args finalizerCall)
   \<and> spec_finalizerFunction (call_Args finalizerCall ! 1) = Some ''cleanup''
   \<and> reachable_in (visitInstr 1 finalizerProgram ''main'' (Call finalizerCall) (initial_rta None))
        ''cleanup'' = Some True"
proof -
  have h: "\<not> IsInvoke finalizerCall \<and> spec_calleeIsSetFinalizer finalizerProgram finalizerCall
   \<and> 2 \<le> length (call_Args finalizerCall)
   \<and> spec_finalizerFunction (call_Args finalizerCall ! 1) = Some ''cleanup''"
    by (simp add: IsInvoke_def finalizerCall_def spec_calleeIsSetFinalizer_def
        spec_finalizerFunction_def finalizerProgram_def emptyProgram_def emptyFunction_def)
  from finalizer_inclusion [of finalizerProgram finalizerCall "initial_rta None" "''cleanup''" 1 "''main''"] h
  show ?thesis by blast
qed

section \<open>Resolver miss\<close>

text \<open>
  Claim C8. For an invoke site of the interface method \<open>imethod\<close> and a candidate type
  \<open>C\<close>: when the method is found neither in the method set of \<open>C\<close> (aliases resolved,
  looked up with the package of the method) nor, unless \<open>C\<close> is already a pointer, in the
  method set of the pointer to \<open>C\<close>, then \<open>addInvokeEdge\<close> returns the state unchanged:
  nothing is marked and no error is raised. On an invoke site \<open>addInvokeEdge\<close> never ends
  in an error.
\<close>

theorem resolver_miss_is_silent:
  "(call_Method site = Some imethod
      \<and> Lookup (MethodSet P (Unalias C)) (m_Pkg imethod) (m_Name imethod) = None
      \<and> (isPointer (Unalias C)
          \<or> Lookup (MethodSet P (Pointer (Unalias C))) (m_Pkg imethod) (m_Name imethod) = None)
     \<longrightarrow> addInvokeEdge P site C r = Inr r)
   \<and> (call_Method site = Some imethod \<longrightarrow> returns (addInvokeEdge P site C r))"
  by (auto simp add: addInvokeEdge_returns) (auto simp add: addInvokeEdge_def Let_def)

theorem resolver_miss_is_silent_witness:
  "call_Method closeSite = Some I_Close
   \<and> Lookup (MethodSet markerProgram (Unalias (Named ''A''))) (m_Pkg I_Close) (m_Name I_Close) = None
   \<and> Lookup (MethodSet markerProgram (Pointer (Unalias (Named ''A'')))) (m_Pkg I_Close) (m_Name I_Close) = None
   \<and> addInvokeEdge markerProgram closeSite (Named ''A'') (initial_rta None) = Inr (initial_rta None)"
proof -
  have h1: "call_Method closeSite = Some I_Close"
    by (simp add: closeSite_def)
  have h2: "Lookup (MethodSet markerProgram (Unalias (Named ''A''))) (m_Pkg I_Close) (m_Name I_Close) = None"
    by (simp add: Lookup_def MethodSet_def markerProgram_def A_msets_def I_Close_def
        A_Error_def A_mark_def func_Id_def Id_def Exported_ascii appPath_def)
  have h3: "Lookup (MethodSet markerProgram (Pointer (Unalias (Named ''A'')))) (m_Pkg I_Close) (m_Name I_Close) = None"
    by (simp add: Lookup_def MethodSet_def markerProgram_def A_msets_def I_Close_def
        A_Error_def A_mark_def func_Id_def Id_def Exported_ascii appPath_def)
  from resolver_miss_is_silent [of closeSite I_Close markerProgram "Named ''A''" "initial_rta None"]
    h1 h2 h3
  show ?thesis by blast
qed

section \<open>Fingerprint soundness\<close>

text \<open>
  Claim C3. When a type \<open>C\<close> implements an interface \<open>I\<close> in the sense of
  \<open>types.Implements\<close>, every bit of the fingerprint of the method set of \<open>I\<close> is a bit of
  the fingerprint of the method set of \<open>C\<close>: \<open>fp(I) AND NOT fp(C) = 0\<close>. So the test
  \<open>implements\<close>, run on infos that carry these fingerprints, accepts the pair, and so do
  the fingerprints that \<open>getInterfaceTypeInfo\<close> and \<open>getConcreteTypeInfo\<close> compute when
  they first see \<open>I\<close> and \<open>C\<close>. The bit of a method is taken from the CRC-32 of a key made
  of the id of the method and the numbers of its parameters and results.
\<close>

theorem fingerprint_soundness:
  "Implements P C I \<Longrightarrow>
   Fingerprint (MethodSet P (Interface a I)) AND NOT (Fingerprint (MethodSet P C)) = 0
   \<and> (\<forall>(cinfo :: concreteTypeInfo) (iinfo :: interfaceTypeInfo). ci_C cinfo = C \<and> ci_fprint cinfo = Fingerprint (MethodSet P C)
         \<and> ii_I iinfo = (a, I) \<and> ii_fprint iinfo = Fingerprint (MethodSet P (Interface a I))
       \<longrightarrow> implements P cinfo iinfo)
   \<and> ii_fprint (fst (getInterfaceTypeInfo P (a, I) (initial_rta rvc)))
        AND NOT (ci_fprint (fst (getConcreteTypeInfo P C (initial_rta rvc)))) = 0"
proof (intro conjI allI impI)
  assume imp: "Implements P C I"
  then show s: "Fingerprint (MethodSet P (Interface a I)) AND NOT (Fingerprint (MethodSet P C)) = 0"
    by (rule Fingerprint_subset)
  have u: "MethodSet P (Unalias C) = MethodSet P C"
    by (induction C rule: Unalias.induct) (simp_all add: MethodSet_def)
  show "ii_fprint (fst (getInterfaceTypeInfo P (a, I) (initial_rta rvc)))
        AND NOT (ci_fprint (fst (getConcreteTypeInfo P C (initial_rta rvc)))) = 0"
    using s
    by (simp add: getInterfaceTypeInfo_def getConcreteTypeInfo_def initial_rta_def Let_def u
        iface_Type_def)
  fix cinfo :: concreteTypeInfo and iinfo :: interfaceTypeInfo
  assume "ci_C cinfo = C \<and> ci_fprint cinfo = Fingerprint (MethodSet P C)
         \<and> ii_I iinfo = (a, I) \<and> ii_fprint iinfo = Fingerprint (MethodSet P (Interface a I))"
  with imp s show "implements P cinfo iinfo"
    by (simp add: implements_def)
qed

theorem fingerprint_soundness_witness:
  "Implements markerProgram (Named ''A'') [E_Error, E_mark]
   \<and> Fingerprint (MethodSet markerProgram (Interface 1 [E_Error, E_mark]))
       AND NOT (Fingerprint (MethodSet markerProgram (Named ''A''))) = 0"
proof -
  have h: "Implements markerProgram (Named ''A'') [E_Error, E_mark]"
    by (simp add: Implements_def MethodSet_def markerProgram_def A_msets_def
        E_Error_def E_mark_def A_Error_def A_mark_def func_Id_def Id_def Exported_ascii
        func_Type_def Identical_def appPath_def)
  from fingerprint_soundness [OF h] h show ?thesis by blast
qed

section \<open>Analyze and nil roots\<close>

text \<open>
  Claim C9 says that \<open>Analyze\<close> never panics, also on a root list with nil elements.
  The code reads \<^verbatim>\<open>roots[0].Prog\<close> before any root passes the nil test of
  \<open>addReachable\<close>: on every root list whose first element is nil, \<open>Analyze\<close> ends in a
  nil-pointer dereference, whatever the program and the bound. The empty list gives the
  nil result.
\<close>

theorem analyze_nil_first_root:
  "Analyze n P (None # roots) = Inl NilPointerDereference
   \<and> Analyze n P [] = Inr None"
  by (simp add: Analyze_def Analyze_init_def)

section \<open>Pointer-to-interface propagation\<close>

text \<open>
  Claim C1 says that after a conversion of a \<^verbatim>\<open>*I_p\<close> to the empty interface every
  method of \<^verbatim>\<open>I_p\<close> is marked on every implementing type. Two runs of the code where
  this fails. In \<open>markerProgram\<close> the type \<^verbatim>\<open>A\<close> implements \<^verbatim>\<open>E\<close> and is not a
  runtime type when \<^verbatim>\<open>main\<close> is scanned: \<open>Analyze\<close> marks the exported \<^verbatim>\<open>A.Error\<close> and
  leaves the marker method \<^verbatim>\<open>A.mark\<close> unreachable. In \<open>ptrMarkerProgram\<close> the methods
  have pointer receivers and \<^verbatim>\<open>A\<close> is already a runtime type:
  \<open>markImplementorsMethodsReachable\<close> looks into the method set of \<^verbatim>\<open>A\<close> only and marks
  nothing, where \<open>markInterfaceMethodsReachable\<close> on the same state marks \<^verbatim>\<open>A.mark\<close>.
\<close>

theorem marker_method_missed:
  "Implements markerProgram (Named ''A'') [E_Error, E_mark]
   \<and> reachable_in (state_in (Analyze_trace 6 markerProgram [Some ''main''])) ''A.Error'' = Some True
   \<and> reachable_in (state_in (Analyze_trace 6 markerProgram [Some ''main''])) ''A.mark'' = None
   \<and> Implements ptrMarkerProgram (Pointer (Named ''A'')) [E_Error, E_mark]
   \<and> runtime_type_in (Inr s_rtA) (Named ''A'') = Some True
   \<and> reachable_in (markImplementorsMethodsReachable 6 ptrMarkerProgram [E_Error, E_mark] s_rtA)
        ''A.mark'' = None
   \<and> Reachable (result (markInterfaceMethodsReachable ptrMarkerProgram (Named ''A'')
        [E_Error, E_mark] s_rtA)) ''A.mark'' = Some True"
  by (simp add: eval_defs eval_rt_defs marker_defs ptrMarkerProgram_def A_msets_ptr_def
      s_rtA_def markInterfaceMethodsReachable_def)

section \<open>Recursive runtime-type materialization\<close>

text \<open>
  Claim C5, as stated, fails. \<open>addRuntimeType\<close> on a signature that is not in a
  known-safe context adds the parameter tuple with the flag of the signature, false, and
  not with \<open>skip_methods = true\<close>. \<open>addRuntimeTypeSelective\<close> adds a pointer type with
  \<open>skip_methods = false\<close> and does not add the element type at all.
\<close>

theorem structural_types_counterexample:
  "runtime_type_in (addRuntimeType 4 emptyProgram (Signature [Basic ''int''] []) False
       (initial_rta None)) (Signature [Basic ''int''] []) = Some False
   \<and> runtime_type_in (addRuntimeType 4 emptyProgram (Signature [Basic ''int''] []) False
       (initial_rta None)) (Tuple [Basic ''int'']) = Some False
   \<and> runtime_type_in (addRuntimeTypeSelective emptyProgram (Pointer (Basic ''int'')) False
       (initial_rta None)) (Pointer (Basic ''int'')) = Some False
   \<and> runtime_type_in (addRuntimeTypeSelective emptyProgram (Pointer (Basic ''int'')) False
       (initial_rta None)) (Basic ''int'') = None"
  by (simp add: eval_defs eval_rt_defs)

text \<open>
  Claim C5, amended. When \<open>addRuntimeType\<close> adds a type \<open>T\<close> that was not a runtime type
  and returns, then the element type of a pointer, slice, channel or array, the key and the
  element of a map, the fields of a struct, the components of a tuple, for a named type the
  pointer to it and its underlying type, and for an alias its unaliased target are runtime
  types with \<open>skip_methods = true\<close>; the parameter and result tuples of a signature and the
  signatures of the methods of a named type are runtime types too, with the flag the
  second type switch passes on. \<open>addRuntimeTypeForInterface\<close> does the first half for the
  unaliased type. \<open>addRuntimeTypeSelective\<close> changes \<open>RuntimeTypes\<close> by the entry of the
  unaliased type alone, and not at all when that type is already there.
\<close>

theorem structural_types_added:
  "(tm_At (RuntimeTypes (result r)) T = None \<and> addRuntimeType n P T skip r = Inr r1
      \<longrightarrow> (\<forall>c\<in>set (structure_types P T). tm_At (RuntimeTypes (result r1)) c = Some True)
        \<and> (\<forall>c\<in>set (signature_types P T). tm_At (RuntimeTypes (result r1)) c \<noteq> None))
   \<and> (tm_At (RuntimeTypes (result r)) (Unalias T) = None
        \<and> addRuntimeTypeForInterface n P T iface skip r = Inr r2
      \<longrightarrow> (\<forall>c\<in>set (structure_types P (Unalias T)). tm_At (RuntimeTypes (result r2)) c = Some True))
   \<and> (addRuntimeTypeSelective P T skip r = Inr r3
      \<longrightarrow> RuntimeTypes (result r3) =
            (if tm_At (RuntimeTypes (result r)) (Unalias T) \<noteq> None then RuntimeTypes (result r)
             else tm_Set (RuntimeTypes (result r)) (Unalias T) skip))"
  using addRuntimeType_new_adds [of r T n P skip r1]
    addRuntimeTypeForInterface_new_adds [of r T n P iface skip r2]
    addRuntimeTypeSelective_RuntimeTypes [of P T skip r r3]
  by blast

theorem structural_types_added_witness:
  "tm_At (RuntimeTypes (result (initial_rta None))) (Pointer (Basic ''int'')) = None
   \<and> returns (addRuntimeType 3 emptyProgram (Pointer (Basic ''int'')) False (initial_rta None))
   \<and> runtime_type_in (addRuntimeType 3 emptyProgram (Pointer (Basic ''int'')) False
        (initial_rta None)) (Basic ''int'') = Some True
   \<and> returns (addRuntimeTypeForInterface 3 emptyProgram (Pointer (Basic ''int'')) (Some []) False
        (initial_rta None))
   \<and> runtime_type_in (addRuntimeTypeForInterface 3 emptyProgram (Pointer (Basic ''int''))
        (Some []) False (initial_rta None)) (Basic ''int'') = Some True
   \<and> returns (addRuntimeTypeSelective emptyProgram (Pointer (Basic ''int'')) False (initial_rta None))"
proof -
  let ?T = "Pointer (Basic ''int'')"
  have new: "tm_At (RuntimeTypes (result (initial_rta None))) ?T = None"
    by (simp add: initial_rta_def)
  have ret1: "returns (addRuntimeType 3 emptyProgram ?T False (initial_rta None))"
    by (simp add: eval_defs eval_rt_defs)
  have ret2: "returns (addRuntimeTypeForInterface 3 emptyProgram ?T (Some []) False (initial_rta None))"
    by (simp add: eval_defs eval_rt_defs)
  have ret3: "returns (addRuntimeTypeSelective emptyProgram ?T False (initial_rta None))"
    by (simp add: eval_defs eval_rt_defs)
  from ret1 obtain r1 where r1: "addRuntimeType 3 emptyProgram ?T False (initial_rta None) = Inr r1"
    by (auto simp add: returns_def split: sum.splits)
  from ret2 obtain r2 where r2: "addRuntimeTypeForInterface 3 emptyProgram ?T (Some []) False (initial_rta None) = Inr r2"
    by (auto simp add: returns_def split: sum.splits)
  from ret3 obtain r3 where r3: "addRuntimeTypeSelective emptyProgram ?T False (initial_rta None) = Inr r3"
    by (auto simp add: returns_def split: sum.splits)
  have st: "structure_types emptyProgram ?T = [Basic ''int'']" "Unalias ?T = ?T"
    by (simp_all add: structure_types_def)
  from structural_types_added [of "initial_rta None" ?T 3 emptyProgram False r1 "Some []" r2 r3]
    new r1 r2 r3 st
  have "tm_At (RuntimeTypes (result r1)) (Basic ''int'') = Some True"
    "tm_At (RuntimeTypes (result r2)) (Basic ''int'') = Some True"
    by simp_all
  then show ?thesis
    using new ret1 ret2 ret3 r1 r2 by (simp add: runtime_type_in_def)
qed

section \<open>Selective marking in a known-safe context\<close>




end
